theory Spec2Isabelle
  imports Complex_Main
begin

section \<open>Numbers and faults of the host language\<close>

text \<open>
  The program is the script \<^verbatim>\<open>src/js/main.js\<close>. Its numbers are IEEE doubles. Counts and
  indices are modelled as \<^typ>\<open>int\<close>: the host's sums and remainders of integers are exact
  as long as the operands and the result stay below \<open>2 ^ 53\<close> in magnitude, and a statement
  about an index says so where it goes beyond the indices the script itself produces.
  Coordinates and percentages are modelled as \<^typ>\<open>real\<close>, without the rounding of the host:
  what is proved of them is either a property of exact arithmetic, stated as such, or one
  that the rounding does not touch (which branch a comparison takes, the bounds a clamped
  value stays in). The counter animation, whose displayed number depends on the rounding of
  the host and of its \<^verbatim>\<open>Math.pow\<close>, is not modelled. A property access on \<^verbatim>\<open>null\<close> raises a
  \<^verbatim>\<open>TypeError\<close>; faults are values of the type below, on the left of a sum.
\<close>

datatype js_error = TypeError

text \<open>
  The remainder operator \<^verbatim>\<open>%\<close> of the script, on integers with a divisor other than
  zero: the result takes the sign of the dividend and the magnitude of
  \<open>\<bar>a\<bar> mod \<bar>b\<bar>\<close> (truncated, not floored, division).
\<close>

definition js_rem :: "int \<Rightarrow> int \<Rightarrow> int" where
  "js_rem a b = sgn a * (\<bar>a\<bar> mod \<bar>b\<bar>)"

text \<open>\<^verbatim>\<open>const clamp = (val, min, max) => Math.min(Math.max(val, min), max)\<close>\<close>

definition clamp :: "real \<Rightarrow> real \<Rightarrow> real \<Rightarrow> real" where
  "clamp val lo hi = min (max val lo) hi"

section \<open>Carousel of testimonials\<close>

text \<open>
  What \<^verbatim>\<open>initTestimonialsCarousel\<close> reads of the page: whether each queried element
  exists, how many \<^verbatim>\<open>.testimonial-card\<close> elements the track holds, and the
  reduced-motion preference.
\<close>

record carousel_page =
  track :: bool
  prevBtn :: bool
  nextBtn :: bool
  dotsContainer :: bool
  cards :: nat
  reduced_motion :: bool

text \<open>
  The variables the closures of \<^verbatim>\<open>initTestimonialsCarousel\<close> share. \<open>track_transform\<close> is
  the percentage written into \<^verbatim>\<open>translateX(-...%)\<close>; \<open>dots\<close> holds, for each indicator, whether
  it is the active (selected) one. Interval timers are handles: \<open>timers\<close> are the running
  ones, \<open>autoPlayTimer\<close> the handle the variable of that name holds.
\<close>

record carousel =
  ncards :: nat
  currentIndex :: int
  track_transform :: "int option"
  dots :: "bool list"
  autoPlayTimer :: "nat option"
  timers :: "nat list"
  next_handle :: nat
  touchStartX :: real
  touchEndX :: real
  prefersReducedMotion :: bool

text \<open>
  \<^verbatim>\<open>currentIndex = (index + cards.length) % cards.length\<close>, for an integer \<open>index\<close>. The host
  adds in doubles, so the model gives the index of the script as long as
  \<open>\<bar>index\<bar> + n < 2 ^ 53\<close>, \<open>n\<close> the number of cards: then the sum is exact, and the remainder
  always is. (A zero result of a negative dividend is the host's negative zero, which equals
  zero.)
\<close>

definition goToSlide :: "carousel \<Rightarrow> int \<Rightarrow> carousel" where
  "goToSlide st index =
     (let i = js_rem (index + int (ncards st)) (int (ncards st))
      in st\<lparr>currentIndex := i,
            track_transform := Some (i * 100),
            dots := map (\<lambda>k. int k = i) [0..<length (dots st)]\<rparr>)"

definition startAutoPlay :: "carousel \<Rightarrow> carousel" where
  "startAutoPlay st =
     (if prefersReducedMotion st then st
      else st\<lparr>autoPlayTimer := Some (next_handle st),
              timers := next_handle st # timers st,
              next_handle := Suc (next_handle st)\<rparr>)"

definition clearInterval :: "carousel \<Rightarrow> carousel" where
  "clearInterval st =
     (case autoPlayTimer st of
        None \<Rightarrow> st
      | Some h \<Rightarrow> st\<lparr>timers := removeAll h (timers st)\<rparr>)"

definition resetAutoPlay :: "carousel \<Rightarrow> carousel" where
  "resetAutoPlay st = startAutoPlay (clearInterval st)"

datatype key = ArrowLeft | ArrowRight | OtherKey

text \<open>
  The events the carousel listens to. A dot exists for each card only, so a click on dot
  \<open>i\<close> reaches a listener only when \<open>i\<close> is below the number of cards; a tick reaches
  the callback only of a running timer. A key event carries the bottom and top of the track's
  bounding box and the height of the window, which the listener compares.
\<close>

datatype action =
    PrevClick
  | NextClick
  | DotClick nat
  | KeyDown key real real real
  | AutoTick nat
  | MouseEnter
  | MouseLeave
  | TouchStart real
  | TouchEnd real

fun step :: "carousel \<Rightarrow> action \<Rightarrow> carousel" where
  "step st PrevClick = resetAutoPlay (goToSlide st (currentIndex st - 1))"
| "step st NextClick = resetAutoPlay (goToSlide st (currentIndex st + 1))"
| "step st (DotClick i) =
     (if i < ncards st then resetAutoPlay (goToSlide st (int i)) else st)"
| "step st (KeyDown k rect_bottom rect_top innerHeight) =
     (if rect_bottom < 0 \<or> rect_top > innerHeight then st
      else case k of
        ArrowLeft \<Rightarrow> resetAutoPlay (goToSlide st (currentIndex st - 1))
      | ArrowRight \<Rightarrow> resetAutoPlay (goToSlide st (currentIndex st + 1))
      | OtherKey \<Rightarrow> st)"
| "step st (AutoTick h) =
     (if h \<in> set (timers st) then goToSlide st (currentIndex st + 1) else st)"
| "step st MouseEnter = clearInterval st"
| "step st MouseLeave = startAutoPlay st"
| "step st (TouchStart x) = st\<lparr>touchStartX := x\<rparr>"
| "step st (TouchEnd x) =
     (let st1 = st\<lparr>touchEndX := x\<rparr>;
          diff = touchStartX st1 - touchEndX st1
      in if \<bar>diff\<bar> > 50
         then resetAutoPlay
                (if diff > 0 then goToSlide st1 (currentIndex st1 + 1)
                 else goToSlide st1 (currentIndex st1 - 1))
         else st1)"

definition run :: "carousel \<Rightarrow> action list \<Rightarrow> carousel" where
  "run st acts = foldl step st acts"

text \<open>
  \<^verbatim>\<open>initTestimonialsCarousel\<close>. It returns early, doing nothing (\<open>Inr None\<close>), when the
  track or one of the two buttons is missing or the track has no card. Otherwise it builds
  one dot per card and appends it to \<^verbatim>\<open>dotsContainer\<close>, which it never tests: on a page
  without that element the first \<^verbatim>\<open>dotsContainer.appendChild(dot)\<close> raises.
\<close>

definition initTestimonialsCarousel :: "carousel_page \<Rightarrow> js_error + carousel option" where
  "initTestimonialsCarousel page =
     (if \<not> track page \<or> \<not> prevBtn page \<or> \<not> nextBtn page then Inr None
      else if cards page = 0 then Inr None
      else if \<not> dotsContainer page then Inl TypeError
      else Inr (Some (startAutoPlay (goToSlide
             \<lparr>ncards = cards page, currentIndex = 0, track_transform = None,
              dots = map (\<lambda>k. k = 0) [0..<cards page],
              autoPlayTimer = None, timers = [], next_handle = 0,
              touchStartX = 0, touchEndX = 0,
              prefersReducedMotion = reduced_motion page\<rparr> 0))))"

section \<open>Pointer follower\<close>

text \<open>
  \<^verbatim>\<open>initCursor\<close> keeps the last pointer position (\<open>mouseX\<close>, \<open>mouseY\<close>) and the position of
  the ring (\<open>ringX\<close>, \<open>ringY\<close>); each frame writes the pointer position to the dot and moves
  the ring by \<open>LERP_FACTOR\<close> of the way to it.
\<close>

record cursor =
  mouseX :: real
  mouseY :: real
  ringX :: real
  ringY :: real
  dot_left :: real
  dot_top :: real
  ring_left :: real
  ring_top :: real

definition LERP_FACTOR :: real where
  "LERP_FACTOR = 12 / 100"

definition updateCursor :: "cursor \<Rightarrow> cursor" where
  "updateCursor st =
     (let rx = ringX st + (mouseX st - ringX st) * LERP_FACTOR;
          ry = ringY st + (mouseY st - ringY st) * LERP_FACTOR
      in st\<lparr>dot_left := mouseX st, dot_top := mouseY st,
            ringX := rx, ringY := ry, ring_left := rx, ring_top := ry\<rparr>)"

definition mousemove :: "cursor \<Rightarrow> real \<Rightarrow> real \<Rightarrow> cursor" where
  "mousemove st clientX clientY = st\<lparr>mouseX := clientX, mouseY := clientY\<rparr>"

text \<open>
  The animation loop re-schedules itself on every frame and never ends; \<open>frames k\<close> is the
  state after \<open>k\<close> frames with no pointer event in between.
\<close>

fun frames :: "nat \<Rightarrow> cursor \<Rightarrow> cursor" where
  "frames 0 st = st"
| "frames (Suc k) st = frames k (updateCursor st)"

record cursor_page =
  hasHover :: bool
  cursor_el :: bool
  dot_el :: bool
  ring_el :: bool

text \<open>
  \<^verbatim>\<open>initCursor\<close> returns early without hover support or without \<^verbatim>\<open>#cursor\<close>. The dot and the
  ring inside it are not tested: the first frame, run from the initialisation itself, reads
  \<^verbatim>\<open>dot.style\<close> and then \<^verbatim>\<open>ring.style\<close>.
\<close>

definition initCursor :: "cursor_page \<Rightarrow> js_error + cursor option" where
  "initCursor page =
     (if \<not> hasHover page then Inr None
      else if \<not> cursor_el page then Inr None
      else if \<not> dot_el page then Inl TypeError
      else if \<not> ring_el page then Inl TypeError
      else Inr (Some (updateCursor
             \<lparr>mouseX = 0, mouseY = 0, ringX = 0, ringY = 0,
              dot_left = 0, dot_top = 0, ring_left = 0, ring_top = 0\<rparr>)))"

section \<open>Scroll progress bar\<close>

text \<open>
  The frame callback of \<^verbatim>\<open>initScrollProgress\<close>: from the height of the document, the height of
  the window and the scroll offset to the percentage written as the width of the bar.
\<close>

definition scroll_progress :: "real \<Rightarrow> real \<Rightarrow> real \<Rightarrow> real" where
  "scroll_progress scrollHeight innerHeight scrollY =
     (let scrollableHeight = scrollHeight - innerHeight;
          scrolled = scrollY
      in if scrollableHeight > 0 then (scrolled / scrollableHeight) * 100 else 0)"

record progress_bar =
  ticking :: bool
  bar_width :: "real option"

definition on_scroll :: "progress_bar \<Rightarrow> progress_bar" where
  "on_scroll st = (if \<not> ticking st then st\<lparr>ticking := True\<rparr> else st)"

definition on_frame :: "progress_bar \<Rightarrow> real \<Rightarrow> real \<Rightarrow> real \<Rightarrow> progress_bar" where
  "on_frame st scrollHeight innerHeight scrollY =
     st\<lparr>bar_width := Some (clamp (scroll_progress scrollHeight innerHeight scrollY) 0 100),
        ticking := False\<rparr>"

definition initScrollProgress :: "bool \<Rightarrow> progress_bar option" where
  "initScrollProgress progressBar =
     (if \<not> progressBar then None else Some \<lparr>ticking = False, bar_width = None\<rparr>)"

section \<open>Viewport reveal\<close>

text \<open>
  The elements of class \<^verbatim>\<open>reveal-up\<close>: \<open>revealed\<close> are those that carry the class
  \<^verbatim>\<open>is-revealed\<close>, \<open>observed\<close> those the intersection observer watches.
\<close>

record 'e reveal =
  revealed :: "'e set"
  observed :: "'e set"

record 'e entry =
  entry_target :: 'e
  isIntersecting :: bool

definition on_entry :: "'e reveal \<Rightarrow> 'e entry \<Rightarrow> 'e reveal" where
  "on_entry st en =
     (if isIntersecting en
      then st\<lparr>revealed := insert (entry_target en) (revealed st),
              observed := observed st - {entry_target en}\<rparr>
      else st)"

definition observer_callback :: "'e reveal \<Rightarrow> 'e entry list \<Rightarrow> 'e reveal" where
  "observer_callback st entries = foldl on_entry st entries"

text \<open>
  \<^verbatim>\<open>initScrollAnimations\<close>, from the reduced-motion preference, the flagged elements and the
  elements the markup already shows revealed.
\<close>

definition initScrollAnimations :: "bool \<Rightarrow> 'e list \<Rightarrow> 'e set \<Rightarrow> 'e reveal" where
  "initScrollAnimations reduced flagged already =
     (if reduced then \<lparr>revealed = already \<union> set flagged, observed = {}\<rparr>
      else \<lparr>revealed = already, observed = set flagged\<rparr>)"

text \<open>The states an element goes through under a sequence of observer callbacks.\<close>

fun reveal_trace :: "'e reveal \<Rightarrow> 'e entry list list \<Rightarrow> 'e reveal list" where
  "reveal_trace st [] = [st]"
| "reveal_trace st (es # ess) = st # reveal_trace (observer_callback st es) ess"

text \<open>How often a flag goes from false to true, and from true to false, along a list.\<close>

fun rises :: "bool list \<Rightarrow> nat" where
  "rises (a # b # bs) = (if \<not> a \<and> b then 1 else 0) + rises (b # bs)"
| "rises _ = 0"

fun falls :: "bool list \<Rightarrow> nat" where
  "falls (a # b # bs) = (if a \<and> \<not> b then 1 else 0) + falls (b # bs)"
| "falls _ = 0"

section \<open>Contact form: strings and the e-mail pattern\<close>

text \<open>
  A string of the script is a sequence of 16-bit code units, here natural numbers.
  \<open>of_ascii\<close> writes one from its ASCII characters.
\<close>

type_synonym jsstring = "nat list"

definition of_ascii :: "string \<Rightarrow> jsstring" where
  "of_ascii s = map of_char s"

text \<open>
  White space and line terminators: what \<^verbatim>\<open>String.prototype.trim\<close> strips and what the
  class \<^verbatim>\<open>\s\<close> of a regular expression matches.
\<close>

definition is_space :: "nat \<Rightarrow> bool" where
  "is_space c =
     (c = 9 \<or> c = 10 \<or> c = 11 \<or> c = 12 \<or> c = 13 \<or> c = 32 \<or> c = 160 \<or> c = 5760
      \<or> (8192 \<le> c \<and> c \<le> 8202) \<or> c = 8232 \<or> c = 8233 \<or> c = 8239 \<or> c = 8287
      \<or> c = 12288 \<or> c = 65279)"

definition trim :: "jsstring \<Rightarrow> jsstring" where
  "trim s = rev (dropWhile is_space (rev (dropWhile is_space s)))"

text \<open>
  Regular expressions over code units, as far as the pattern of the form needs them, with
  their languages. \<open>Plus r\<close> is \<^verbatim>\<open>r+\<close>.
\<close>

datatype rx =
    Never
  | Empty
  | Class "nat \<Rightarrow> bool"
  | Either rx rx
  | Then rx rx
  | Many rx

definition Plus :: "rx \<Rightarrow> rx" where
  "Plus r = Then r (Many r)"

inductive_set star :: "jsstring set \<Rightarrow> jsstring set" for L :: "jsstring set" where
  star_empty: "[] \<in> star L"
| star_more: "u \<in> L \<Longrightarrow> v \<in> star L \<Longrightarrow> u @ v \<in> star L"

fun lang :: "rx \<Rightarrow> jsstring set" where
  "lang Never = {}"
| "lang Empty = {[]}"
| "lang (Class p) = {[c] | c. p c}"
| "lang (Either r s) = lang r \<union> lang s"
| "lang (Then r s) = {u @ v | u v. u \<in> lang r \<and> v \<in> lang s}"
| "lang (Many r) = star (lang r)"

text \<open>The matcher: derivatives, one code unit at a time.\<close>

fun nullable :: "rx \<Rightarrow> bool" where
  "nullable Never = False"
| "nullable Empty = True"
| "nullable (Class p) = False"
| "nullable (Either r s) = (nullable r \<or> nullable s)"
| "nullable (Then r s) = (nullable r \<and> nullable s)"
| "nullable (Many r) = True"

fun deriv :: "nat \<Rightarrow> rx \<Rightarrow> rx" where
  "deriv c Never = Never"
| "deriv c Empty = Never"
| "deriv c (Class p) = (if p c then Empty else Never)"
| "deriv c (Either r s) = Either (deriv c r) (deriv c s)"
| "deriv c (Then r s) =
     (if nullable r then Either (Then (deriv c r) s) (deriv c s) else Then (deriv c r) s)"
| "deriv c (Many r) = Then (deriv c r) (Many r)"

text \<open>
  \<^verbatim>\<open>regex.test(s)\<close> for a pattern anchored at both ends (\<^verbatim>\<open>^...$\<close>, no flags): the whole of
  \<open>s\<close> has to match.
\<close>

definition test :: "rx \<Rightarrow> jsstring \<Rightarrow> bool" where
  "test r s = nullable (foldl (\<lambda>r c. deriv c r) r s)"

text \<open>\<^verbatim>\<open>/^[^\s@]+@[^\s@]+\.[^\s@]+$/\<close>; 64 is \<^verbatim>\<open>@\<close> and 46 the dot.\<close>

definition emailRegex :: rx where
  "emailRegex =
     Then (Plus (Class (\<lambda>c. \<not> (is_space c \<or> c = 64))))
    (Then (Class (\<lambda>c. c = 64))
    (Then (Plus (Class (\<lambda>c. \<not> (is_space c \<or> c = 64))))
    (Then (Class (\<lambda>c. c = 46))
          (Plus (Class (\<lambda>c. \<not> (is_space c \<or> c = 64)))))))"

text \<open>
  The pattern in the words of the specification: a local part, \<^verbatim>\<open>@\<close>, and a domain with a dot
  in it, every part non-empty and free of white space and of \<^verbatim>\<open>@\<close>.
\<close>

definition plain_part :: "jsstring \<Rightarrow> bool" where
  "plain_part s = (s \<noteq> [] \<and> list_all (\<lambda>c. \<not> is_space c \<and> c \<noteq> 64) s)"

definition email_pattern :: "jsstring \<Rightarrow> bool" where
  "email_pattern s =
     (\<exists>local_part before_dot after_dot.
        s = local_part @ [64] @ before_dot @ [46] @ after_dot
        \<and> plain_part local_part \<and> plain_part before_dot \<and> plain_part after_dot)"

section \<open>Contact form: fields, validation and submission\<close>

datatype field_id = NomeInput | EmailInput | EmpresaInput | ServicoSelect | MensagemInput

text \<open>
  The three messages of \<^verbatim>\<open>validateForm\<close>: "Nome deve ter ao menos 2 caracteres", "E-mail
  invalido" and "Mensagem deve ter ao menos 10 caracteres".
\<close>

datatype error_message = NomeCurto | EmailInvalido | MensagemCurta

record error_span =
  span_id :: nat
  span_message :: error_message

text \<open>
  A control of the form. The markup is not among the sources: which controls carry the class
  \<^verbatim>\<open>form-input\<close> and the attribute \<^verbatim>\<open>required\<close>, and their initial values, are parameters.
  As \<^verbatim>\<open>markInvalid\<close> presupposes, each control sits in a wrapper of its own, so that the
  \<^verbatim>\<open>.field-error\<close> elements of \<^verbatim>\<open>field.parentNode\<close> (\<open>field_errors\<close>, in document order) are
  those attached for this control. \<open>input_once\<close> holds, for each pending one-shot listener of
  the \<^verbatim>\<open>input\<close> event, the element it removes.
\<close>

record field =
  fvalue :: jsstring
  default_value :: jsstring
  form_input :: bool
  required :: bool
  has_error :: bool
  field_errors :: "error_span list"
  input_once :: "nat list"

record button =
  is_loading :: bool
  disabled :: bool

datatype feedback_kind = Success | Failure

record feedback_box =
  fb_class :: "feedback_kind option"
  fb_message :: "feedback_kind option"

record formData =
  nome :: jsstring
  email :: jsstring
  empresa :: jsstring
  servico :: jsstring
  mensagem :: jsstring

text \<open>What a handler does to the world outside the fields, in the order it does it.\<close>

datatype effect =
    Focus field_id
  | Loading bool
  | Disabled bool
  | FeedbackReset
  | Call formData
  | ConsoleError
  | ShowFeedback feedback_kind
  | FormReset

record form_state =
  control :: "field_id \<Rightarrow> field option"
  submitBtn :: "button option"
  feedback :: "feedback_box option"
  next_span :: nat
  pending :: nat
  effects :: "effect list"

definition markInvalid :: "form_state \<Rightarrow> field_id \<Rightarrow> error_message \<Rightarrow> form_state" where
  "markInvalid st f message =
     (case control st f of
        None \<Rightarrow> st
      | Some fld \<Rightarrow>
          let kept = (case field_errors fld of [] \<Rightarrow> [] | existing # others \<Rightarrow> others);
              error = \<lparr>span_id = next_span st, span_message = message\<rparr>
          in st\<lparr>control := (control st)(f \<mapsto> fld\<lparr>has_error := True,
                                                 field_errors := kept @ [error],
                                                 input_once := input_once fld @ [span_id error]\<rparr>),
                next_span := Suc (next_span st)\<rparr>)"

text \<open>\<^verbatim>\<open>$$('.form-input.has-error', form).forEach(el => el.classList.remove('has-error'))\<close>\<close>

definition clear_errors :: "form_state \<Rightarrow> form_state" where
  "clear_errors st =
     st\<lparr>control := (\<lambda>f. case control st f of
                           None \<Rightarrow> None
                         | Some fld \<Rightarrow>
                             if form_input fld \<and> has_error fld
                             then Some (fld\<lparr>has_error := False\<rparr>) else Some fld)\<rparr>"

text \<open>
  The three tests of \<^verbatim>\<open>validateForm\<close> have one shape: when the control exists and its value
  is bad, mark it, remember it if it is the first, and clear \<open>valid\<close>.
\<close>

record validation =
  valid :: bool
  firstInvalidField :: "field_id option"

definition check_field ::
  "field_id \<Rightarrow> (jsstring \<Rightarrow> bool) \<Rightarrow> error_message \<Rightarrow> validation \<times> form_state
     \<Rightarrow> validation \<times> form_state" where
  "check_field f bad message r =
     (case control (snd r) f of
        None \<Rightarrow> r
      | Some fld \<Rightarrow>
          if bad (fvalue fld)
          then (\<lparr>valid = False,
                 firstInvalidField =
                   (if firstInvalidField (fst r) = None then Some f
                    else firstInvalidField (fst r))\<rparr>,
                markInvalid (snd r) f message)
          else r)"

definition nome_bad :: "jsstring \<Rightarrow> bool" where
  "nome_bad v = (length (trim v) < 2)"

definition email_bad :: "jsstring \<Rightarrow> bool" where
  "email_bad v = (\<not> test emailRegex (trim v))"

definition mensagem_bad :: "jsstring \<Rightarrow> bool" where
  "mensagem_bad v = (length (trim v) < 10)"

definition validateForm :: "form_state \<Rightarrow> validation \<times> form_state" where
  "validateForm st =
     check_field MensagemInput mensagem_bad MensagemCurta
       (check_field EmailInput email_bad EmailInvalido
          (check_field NomeInput nome_bad NomeCurto
             (\<lparr>valid = True, firstInvalidField = None\<rparr>, clear_errors st)))"

text \<open>
  The object the submit handler collects. Reading \<^verbatim>\<open>.value\<close> of a control that does not
  exist raises. The value of the select is taken as it is, the others trimmed.
\<close>

definition collect :: "form_state \<Rightarrow> js_error + formData" where
  "collect st =
     (case control st NomeInput of
        None \<Rightarrow> Inl TypeError
      | Some n \<Rightarrow>
         (case control st EmailInput of
            None \<Rightarrow> Inl TypeError
          | Some e \<Rightarrow>
             (case control st EmpresaInput of
                None \<Rightarrow> Inl TypeError
              | Some c \<Rightarrow>
                 (case control st ServicoSelect of
                    None \<Rightarrow> Inl TypeError
                  | Some s \<Rightarrow>
                     (case control st MensagemInput of
                        None \<Rightarrow> Inl TypeError
                      | Some m \<Rightarrow>
                          Inr \<lparr>nome = trim (fvalue n), email = trim (fvalue e),
                               empresa = trim (fvalue c), servico = fvalue s,
                               mensagem = trim (fvalue m)\<rparr>)))))"

text \<open>
  The submit handler up to its \<^verbatim>\<open>await\<close>: the state it leaves and the fault that ended it, if
  one did. The call of the collaborator is the effect \<open>Call\<close>; \<open>pending\<close> counts the
  calls whose answer is awaited.
\<close>

definition begin_call :: "form_state \<Rightarrow> formData \<Rightarrow> form_state \<times> js_error option" where
  "begin_call st1 data =
     (case submitBtn st1 of
        None \<Rightarrow> (st1, Some TypeError)
      | Some b \<Rightarrow>
         (let st2 = st1\<lparr>submitBtn := Some (b\<lparr>is_loading := True, disabled := True\<rparr>),
                       effects := effects st1 @ [Loading True, Disabled True]\<rparr>
          in (case feedback st2 of
                None \<Rightarrow> (st2, Some TypeError)
              | Some fb \<Rightarrow>
                 (st2\<lparr>feedback := Some (fb\<lparr>fb_class := None\<rparr>),
                      effects := effects st2 @ [FeedbackReset, Call data],
                      pending := Suc (pending st2)\<rparr>, None))))"

definition on_submit :: "form_state \<Rightarrow> form_state \<times> js_error option" where
  "on_submit st =
     (case validateForm st of
        (v, st1) \<Rightarrow>
          (if \<not> valid v
           then (st1\<lparr>effects := effects st1 @
                        (case firstInvalidField v of None \<Rightarrow> [] | Some f \<Rightarrow> [Focus f])\<rparr>,
                 None)
           else (case collect st1 of
                   Inl e \<Rightarrow> (st1, Some e)
                 | Inr data \<Rightarrow> begin_call st1 data)))"

text \<open>What the collaborator answers: a result with its \<open>success\<close> flag, or a rejection.\<close>

datatype outcome = Resolved bool | Rejected

text \<open>The collaborator of the sources always answers \<^verbatim>\<open>{ success: true }\<close>.\<close>

definition simulateFormSubmission :: "formData \<Rightarrow> outcome" where
  "simulateFormSubmission d = Resolved True"

definition showFeedback :: "form_state \<Rightarrow> feedback_kind \<Rightarrow> form_state + form_state" where
  "showFeedback st k =
     (case feedback st of
        None \<Rightarrow> Inl st
      | Some fb \<Rightarrow>
          Inr (st\<lparr>feedback := Some (fb\<lparr>fb_class := Some k, fb_message := Some k\<rparr>),
                  effects := effects st @ [ShowFeedback k]\<rparr>))"

text \<open>\<^verbatim>\<open>form.reset()\<close>: every control back to its initial value; no \<^verbatim>\<open>input\<close> event is fired.\<close>

definition form_reset :: "form_state \<Rightarrow> form_state" where
  "form_reset st =
     st\<lparr>control := (\<lambda>f. case control st f of
                           None \<Rightarrow> None
                         | Some fld \<Rightarrow> Some (fld\<lparr>fvalue := default_value fld\<rparr>)),
        effects := effects st @ [FormReset]\<rparr>"

text \<open>
  The handler from the answer of the collaborator on: the \<^verbatim>\<open>try\<close> block after the \<^verbatim>\<open>await\<close>,
  the \<^verbatim>\<open>catch\<close> block and the \<^verbatim>\<open>finally\<close> block. \<open>Inl\<close> of \<open>showFeedback\<close> is the fault of a
  missing feedback element, caught when raised in the \<^verbatim>\<open>try\<close> block and passed on, after the
  \<^verbatim>\<open>finally\<close> block, when raised in the \<^verbatim>\<open>catch\<close> block.
\<close>

definition finally_block :: "form_state \<Rightarrow> form_state" where
  "finally_block st =
     st\<lparr>submitBtn := (case submitBtn st of
                         None \<Rightarrow> None
                       | Some b \<Rightarrow> Some (b\<lparr>is_loading := False, disabled := False\<rparr>)),
        effects := effects st @ [Loading False, Disabled False],
        pending := pending st - 1\<rparr>"

definition catch_block :: "form_state \<Rightarrow> form_state \<times> js_error option" where
  "catch_block st =
     (case showFeedback (st\<lparr>effects := effects st @ [ConsoleError]\<rparr>) Failure of
        Inl st1 \<Rightarrow> (st1, Some TypeError)
      | Inr st1 \<Rightarrow> (st1, None))"

definition on_settled :: "form_state \<Rightarrow> outcome \<Rightarrow> form_state \<times> js_error option" where
  "on_settled st out =
     (case (case out of
              Resolved True \<Rightarrow>
                (case showFeedback st Success of
                   Inl st0 \<Rightarrow> catch_block st0
                 | Inr st0 \<Rightarrow> (form_reset st0, None))
            | Resolved False \<Rightarrow> catch_block st
            | Rejected \<Rightarrow> catch_block st) of
        (st1, fault) \<Rightarrow> (finally_block st1, fault))"

text \<open>
  The blur listener of each \<^verbatim>\<open>.form-input\<close> control, and an edit of a control: the new value,
  then the pending one-shot listeners of \<^verbatim>\<open>input\<close>, each of which removes the marker and its own
  message.
\<close>

definition on_blur :: "form_state \<Rightarrow> field_id \<Rightarrow> form_state" where
  "on_blur st f =
     (case control st f of
        None \<Rightarrow> st
      | Some fld \<Rightarrow>
          if form_input fld \<and> required fld \<and> trim (fvalue fld) = []
          then st\<lparr>control := (control st)(f \<mapsto> fld\<lparr>has_error := True\<rparr>)\<rparr>
          else st)"

definition on_input :: "form_state \<Rightarrow> field_id \<Rightarrow> jsstring \<Rightarrow> form_state" where
  "on_input st f v =
     (case control st f of
        None \<Rightarrow> st
      | Some fld \<Rightarrow>
          if input_once fld = []
          then st\<lparr>control := (control st)(f \<mapsto> fld\<lparr>fvalue := v\<rparr>)\<rparr>
          else st\<lparr>control := (control st)(f \<mapsto> fld\<lparr>fvalue := v, has_error := False,
                 field_errors := filter (\<lambda>e. span_id e \<notin> set (input_once fld)) (field_errors fld),
                 input_once := []\<rparr>)\<rparr>)"

text \<open>
  The events of the form. The submit listener does not test the submit button: a submit event
  runs it whether the button is enabled or not, also while the answer to an earlier call is
  awaited. An answer of the collaborator arrives only while one is awaited, and resumes the
  handler that awaits it.
\<close>

datatype form_event = Submit | Settled outcome | Blur field_id | Input field_id jsstring

fun form_step :: "form_state \<Rightarrow> form_event \<Rightarrow> form_state" where
  "form_step st Submit = fst (on_submit st)"
| "form_step st (Settled out) = (if 0 < pending st then fst (on_settled st out) else st)"
| "form_step st (Blur f) = on_blur st f"
| "form_step st (Input f v) = on_input st f v"

definition form_run :: "form_state \<Rightarrow> form_event list \<Rightarrow> form_state" where
  "form_run st evs = foldl form_step st evs"

text \<open>
  A run is orderly when no submit event arrives while the answer to an earlier call is
  awaited.
\<close>

fun orderly :: "form_state \<Rightarrow> form_event list \<Rightarrow> bool" where
  "orderly st [] = True"
| "orderly st (Submit # evs) = (pending st = 0 \<and> orderly (form_step st Submit) evs)"
| "orderly st (Settled out # evs) = orderly (form_step st (Settled out)) evs"
| "orderly st (Blur f # evs) = orderly (form_step st (Blur f)) evs"
| "orderly st (Input f v # evs) = orderly (form_step st (Input f v)) evs"

text \<open>
  A blur event marks a control when its listener adds the marker to a control that had none:
  the control has the class \<^verbatim>\<open>form-input\<close> and the attribute \<^verbatim>\<open>required\<close>, its trimmed value is
  empty and it is not marked. \<open>blur_marked st evs acc\<close> are the controls a blur event of the
  run \<open>evs\<close> from \<open>st\<close> has marked since the last submit event of the run, or, when the run has
  none, those of \<open>acc\<close> too.
\<close>

definition blur_marks :: "form_state \<Rightarrow> field_id \<Rightarrow> bool" where
  "blur_marks st f =
     (case control st f of
        None \<Rightarrow> False
      | Some fld \<Rightarrow>
          form_input fld \<and> required fld \<and> trim (fvalue fld) = [] \<and> \<not> has_error fld)"

fun blur_marked :: "form_state \<Rightarrow> form_event list \<Rightarrow> field_id set \<Rightarrow> field_id set" where
  "blur_marked st [] acc = acc"
| "blur_marked st (Submit # evs) acc = blur_marked (form_step st Submit) evs {}"
| "blur_marked st (Settled out # evs) acc = blur_marked (form_step st (Settled out)) evs acc"
| "blur_marked st (Blur f # evs) acc =
     blur_marked (form_step st (Blur f)) evs (if blur_marks st f then insert f acc else acc)"
| "blur_marked st (Input f v # evs) acc = blur_marked (form_step st (Input f v)) evs acc"



text \<open>
  What \<^verbatim>\<open>initContactForm\<close> reads of the page, and the state it starts from on a page that shows
  no error yet. Without \<^verbatim>\<open>#contatoForm\<close> it returns at once; \<^verbatim>\<open>#formFeedback\<close> is not tested.
\<close>

record field_markup =
  initial :: jsstring
  is_form_input :: bool
  is_required :: bool

record form_page =
  form_el :: bool
  feedback_el :: bool
  submit_el :: bool
  controls :: "field_id \<Rightarrow> field_markup option"

definition initContactForm :: "form_page \<Rightarrow> form_state option" where
  "initContactForm page =
     (if \<not> form_el page then None
      else Some
        \<lparr>control = (\<lambda>f. case controls page f of
                          None \<Rightarrow> None
                        | Some m \<Rightarrow>
                            Some \<lparr>fvalue = initial m, default_value = initial m,
                                  form_input = is_form_input m, required = is_required m,
                                  has_error = False, field_errors = [], input_once = []\<rparr>),
         submitBtn = (if submit_el page then Some \<lparr>is_loading = False, disabled = False\<rparr>
                      else None),
         feedback = (if feedback_el page then Some \<lparr>fb_class = None, fb_message = None\<rparr>
                     else None),
         next_span = 0, pending = 0, effects = []\<rparr>)"

section \<open>Notions used in the proofs\<close>

text \<open>The invariant of the carousel: there is a card, and the index points at one.\<close>

definition carousel_inv :: "carousel \<Rightarrow> bool" where
  "carousel_inv st = (0 < ncards st \<and> 0 \<le> currentIndex st \<and> currentIndex st < int (ncards st))"

text \<open>
  An element that is revealed was so \<open>before\<close> the observer started, or is no longer
  observed.
\<close>

definition settled :: "'e \<Rightarrow> 'e set \<Rightarrow> 'e reveal \<Rightarrow> bool" where
  "settled e before st = (e \<notin> revealed st \<or> e \<in> before \<or> e \<notin> observed st)"

text \<open>
  The rule \<^verbatim>\<open>validateForm\<close> applies to each control (none to the company and the service),
  whether the value a control holds breaks it, and the message it attaches.
\<close>

definition rule_bad :: "field_id \<Rightarrow> jsstring \<Rightarrow> bool" where
  "rule_bad f v =
     (case f of NomeInput \<Rightarrow> nome_bad v | EmailInput \<Rightarrow> email_bad v
      | MensagemInput \<Rightarrow> mensagem_bad v | EmpresaInput \<Rightarrow> False | ServicoSelect \<Rightarrow> False)"

definition bad_at :: "form_state \<Rightarrow> field_id \<Rightarrow> bool" where
  "bad_at st f = (case control st f of None \<Rightarrow> False | Some fld \<Rightarrow> rule_bad f (fvalue fld))"

definition message_of :: "field_id \<Rightarrow> error_message" where
  "message_of f = (case f of NomeInput \<Rightarrow> NomeCurto | EmailInput \<Rightarrow> EmailInvalido | _ \<Rightarrow> MensagemCurta)"

text \<open>
  The steps of \<^verbatim>\<open>validateForm\<close> and of an edit, seen from one control: the marker cleared,
  the control marked with the message element \<open>k\<close>, the control after the whole validation,
  and the control after an \<^verbatim>\<open>input\<close> event with the value \<open>v\<close>.
\<close>

definition cleared :: "field \<Rightarrow> field" where
  "cleared fld = (if form_input fld \<and> has_error fld then fld\<lparr>has_error := False\<rparr> else fld)"

definition marked :: "nat \<Rightarrow> error_message \<Rightarrow> field \<Rightarrow> field" where
  "marked k m fld =
     fld\<lparr>has_error := True,
         field_errors := (case field_errors fld of [] \<Rightarrow> [] | existing # others \<Rightarrow> others)
                           @ [\<lparr>span_id = k, span_message = m\<rparr>],
         input_once := input_once fld @ [k]\<rparr>"

definition checked :: "field_id \<Rightarrow> nat \<Rightarrow> field \<Rightarrow> field" where
  "checked f k fld =
     (if rule_bad f (fvalue fld) then marked k (message_of f) (cleared fld) else cleared fld)"

definition edited :: "jsstring \<Rightarrow> field \<Rightarrow> field" where
  "edited v fld =
     (if input_once fld = [] then fld\<lparr>fvalue := v\<rparr>
      else fld\<lparr>fvalue := v, has_error := False,
               field_errors := filter (\<lambda>e. span_id e \<notin> set (input_once fld)) (field_errors fld),
               input_once := []\<rparr>)"

text \<open>
  The invariants of the form. Every message element still attached is one a pending
  \<^verbatim>\<open>input\<close> listener will remove (\<open>spans_tracked\<close>); a control with a message is marked and
  holds a value that breaks its rule (\<open>field_ok\<close>); while an answer of the collaborator is
  awaited no control has a message (\<open>form_inv\<close>, of orderly runs). A marked control has a
  message, or is a \<^verbatim>\<open>form-input\<close> control among those of \<open>acc\<close>, the ones a blur event has
  marked (\<open>marker_inv\<close>).
\<close>

definition spans_tracked :: "field \<Rightarrow> bool" where
  "spans_tracked fld = list_all (\<lambda>e. span_id e \<in> set (input_once fld)) (field_errors fld)"

definition field_ok :: "field_id \<Rightarrow> field \<Rightarrow> bool" where
  "field_ok f fld = (field_errors fld = [] \<or> (has_error fld \<and> rule_bad f (fvalue fld) \<and> spans_tracked fld))"

definition form_inv :: "form_state \<Rightarrow> bool" where
  "form_inv st =
     ((\<forall>f fld. control st f = Some fld \<longrightarrow> field_ok f fld)
      \<and> (0 < pending st \<longrightarrow> (\<forall>f fld. control st f = Some fld \<longrightarrow> field_errors fld = [])))"

definition marker_inv :: "form_state \<Rightarrow> field_id set \<Rightarrow> bool" where
  "marker_inv st acc =
     (\<forall>f fld. control st f = Some fld \<longrightarrow> has_error fld \<longrightarrow>
        field_errors fld \<noteq> [] \<or> (f \<in> acc \<and> form_input fld))"

text \<open>
  A page for concrete runs: the form complete, every control of class \<^verbatim>\<open>form-input\<close>, all but
  the company required, with the given initial values of name, e-mail, company, service and
  message.
\<close>

definition example_page :: "jsstring \<Rightarrow> jsstring \<Rightarrow> jsstring \<Rightarrow> jsstring \<Rightarrow> jsstring \<Rightarrow> form_page" where
  "example_page n e c s m =
     \<lparr>form_el = True, feedback_el = True, submit_el = True,
      controls = (\<lambda>f. Some \<lparr>initial = (case f of NomeInput \<Rightarrow> n | EmailInput \<Rightarrow> e
                                          | EmpresaInput \<Rightarrow> c | ServicoSelect \<Rightarrow> s
                                          | MensagemInput \<Rightarrow> m),
                              is_form_input = True,
                              is_required = (f \<noteq> EmpresaInput)\<rparr>)\<rparr>"

section \<open>The carousel\<close>

lemma js_rem_nonneg: "0 \<le> a \<Longrightarrow> 0 < b \<Longrightarrow> js_rem a b = a mod b"
  by (cases "a = 0") (simp_all add: js_rem_def)

lemma js_rem_neg: "a < 0 \<Longrightarrow> 0 < b \<Longrightarrow> js_rem a b = - ((- a) mod b)"
  by (simp add: js_rem_def)

lemma currentIndex_goToSlide:
  "currentIndex (goToSlide st i) = js_rem (i + int (ncards st)) (int (ncards st))"
  by (simp add: goToSlide_def Let_def)

lemma ncards_goToSlide: "ncards (goToSlide st i) = ncards st"
  by (simp add: goToSlide_def Let_def)

lemma js_rem_wrap:
  assumes "0 < n" and "- n \<le> i"
  shows "js_rem (i + n) n = i mod n"
  using assms by (simp add: js_rem_nonneg)

lemma js_rem_below:
  assumes "0 < n" and "i < - n"
  shows "js_rem (i + n) n = - ((- i) mod n)"
proof -
  have "js_rem (i + n) n = - ((- (i + n)) mod n)" using assms by (simp add: js_rem_neg)
  also have "(- (i + n)) mod n = (- i - n) mod n" by (simp add: algebra_simps)
  also have "\<dots> = (- i) mod n" by simp
  finally show ?thesis .
qed

lemma goToSlide_inv:
  assumes "0 < ncards st" and "- int (ncards st) \<le> i"
  shows "carousel_inv (goToSlide st i)"
  using assms by (simp add: carousel_inv_def currentIndex_goToSlide ncards_goToSlide js_rem_wrap)

lemma startAutoPlay_fields [simp]:
  "currentIndex (startAutoPlay st) = currentIndex st" "ncards (startAutoPlay st) = ncards st"
  by (simp_all add: startAutoPlay_def)

lemma clearInterval_fields [simp]:
  "currentIndex (clearInterval st) = currentIndex st" "ncards (clearInterval st) = ncards st"
  by (simp_all add: clearInterval_def split: option.splits)

lemma resetAutoPlay_fields [simp]:
  "currentIndex (resetAutoPlay st) = currentIndex st" "ncards (resetAutoPlay st) = ncards st"
  by (simp_all add: resetAutoPlay_def)

lemma carousel_step_inv: "carousel_inv st \<Longrightarrow> carousel_inv (step st a)"
proof (cases a)
  case PrevClick
  assume "carousel_inv st"
  then have "carousel_inv (goToSlide st (currentIndex st - 1))"
    by (intro goToSlide_inv) (simp_all add: carousel_inv_def)
  then show ?thesis using PrevClick by (simp add: carousel_inv_def)
next
  case NextClick
  assume "carousel_inv st"
  then have "carousel_inv (goToSlide st (currentIndex st + 1))"
    by (intro goToSlide_inv) (simp_all add: carousel_inv_def)
  then show ?thesis using NextClick by (simp add: carousel_inv_def)
next
  case (DotClick i)
  assume "carousel_inv st"
  then show ?thesis using DotClick goToSlide_inv [of st "int i"]
    by (simp add: carousel_inv_def)
next
  case (KeyDown k b t h)
  assume i: "carousel_inv st"
  then have "carousel_inv (goToSlide st (currentIndex st + 1))" "carousel_inv (goToSlide st (currentIndex st - 1))"
    by (intro goToSlide_inv; simp add: carousel_inv_def)+
  then show ?thesis using KeyDown i by (cases k) (simp_all add: carousel_inv_def)
next
  case (AutoTick h)
  assume i: "carousel_inv st"
  then have "carousel_inv (goToSlide st (currentIndex st + 1))"
    by (intro goToSlide_inv; simp add: carousel_inv_def)+
  then show ?thesis using AutoTick i by simp
next
  case MouseEnter
  assume "carousel_inv st" then show ?thesis using MouseEnter by (simp add: carousel_inv_def)
next
  case MouseLeave
  assume "carousel_inv st" then show ?thesis using MouseLeave by (simp add: carousel_inv_def)
next
  case (TouchStart x)
  assume "carousel_inv st" then show ?thesis using TouchStart by (simp add: carousel_inv_def)
next
  case (TouchEnd x)
  assume i: "carousel_inv st"
  let ?s = "st\<lparr>touchEndX := x\<rparr>"
  have j: "carousel_inv ?s" using i by (simp add: carousel_inv_def)
  then have "carousel_inv (goToSlide ?s (currentIndex ?s + 1))" "carousel_inv (goToSlide ?s (currentIndex ?s - 1))"
    by (intro goToSlide_inv; simp add: carousel_inv_def)+
  then show ?thesis using TouchEnd j by (simp add: Let_def carousel_inv_def)
qed

lemma carousel_run_inv: "carousel_inv st \<Longrightarrow> carousel_inv (run st acts)"
  unfolding run_def by (induction acts arbitrary: st) (simp_all add: carousel_step_inv)

lemma step_ncards: "ncards (step st a) = ncards st"
  by (cases a) (auto simp: ncards_goToSlide Let_def split: key.splits)

lemma run_ncards: "ncards (run st acts) = ncards st"
  unfolding run_def by (induction acts arbitrary: st) (simp_all add: step_ncards)

lemma init_Some:
  assumes "initTestimonialsCarousel page = Inr (Some st0)"
  shows "carousel_inv st0 \<and> ncards st0 = cards page"
proof -
  let ?s = "\<lparr>ncards = cards page, currentIndex = 0, track_transform = None,
              dots = map (\<lambda>k. k = 0) [0..<cards page],
              autoPlayTimer = None, timers = [], next_handle = 0,
              touchStartX = 0, touchEndX = 0,
              prefersReducedMotion = reduced_motion page\<rparr>"
  from assms have c: "0 < cards page" and s: "st0 = startAutoPlay (goToSlide ?s 0)"
    by (auto simp: initTestimonialsCarousel_def split: if_splits)
  have "carousel_inv (goToSlide ?s 0)" using c by (intro goToSlide_inv) simp_all
  then show ?thesis using s by (simp add: carousel_inv_def ncards_goToSlide)
qed

text \<open>
  Claim C1, as amended. For every number of cards \<open>n > 0\<close> and every integer \<open>i\<close> with
  \<open>\<bar>i\<bar> + n < 2 ^ 53\<close> (the range in which the host adds \<open>i\<close> and \<open>n\<close> exactly):
  if \<open>i \<ge> - n\<close>, \<^verbatim>\<open>goToSlide(i)\<close> sets the index to the residue \<open>((i mod n) + n) mod n\<close>, a
  value in \<open>[0, n)\<close>; if \<open>i < - n\<close>, it sets the index to \<open>- ((- i) mod n)\<close>, a value in
  \<open>(- n, 0]\<close>, which is the residue only when \<open>n\<close> divides \<open>i\<close>. (\<open>mod\<close> is the floored
  residue here; the script's \<^verbatim>\<open>%\<close> is \<open>js_rem\<close>.)
\<close>

theorem goToSlide_wraps:
  assumes "0 < ncards st" and "\<bar>i\<bar> + int (ncards st) < 2 ^ 53"
  shows "(- int (ncards st) \<le> i \<longrightarrow>
            currentIndex (goToSlide st i)
              = ((i mod int (ncards st)) + int (ncards st)) mod int (ncards st)
            \<and> 0 \<le> currentIndex (goToSlide st i)
            \<and> currentIndex (goToSlide st i) < int (ncards st))
       \<and> (i < - int (ncards st) \<longrightarrow>
            currentIndex (goToSlide st i) = - ((- i) mod int (ncards st))
            \<and> - int (ncards st) < currentIndex (goToSlide st i)
            \<and> currentIndex (goToSlide st i) \<le> 0
            \<and> (currentIndex (goToSlide st i)
                  = ((i mod int (ncards st)) + int (ncards st)) mod int (ncards st)
                \<longleftrightarrow> int (ncards st) dvd i))"
proof -
  have n: "0 < int (ncards st)" using assms(1) by simp
  have a: "- int (ncards st) \<le> i \<Longrightarrow> currentIndex (goToSlide st i) = i mod int (ncards st)"
    using n by (simp add: currentIndex_goToSlide js_rem_wrap)
  have b: "i < - int (ncards st) \<Longrightarrow> currentIndex (goToSlide st i) = - ((- i) mod int (ncards st))"
    using n by (simp add: currentIndex_goToSlide js_rem_below)
  have r: "0 \<le> (- i) mod int (ncards st)" "(- i) mod int (ncards st) < int (ncards st)"
    using n by simp_all
  have d: "- ((- i) mod int (ncards st)) = i mod int (ncards st) \<longleftrightarrow> int (ncards st) dvd i"
  proof
    assume e: "- ((- i) mod int (ncards st)) = i mod int (ncards st)"
    have "0 \<le> i mod int (ncards st)" using n by simp
    then have "(- i) mod int (ncards st) = 0" using e r(1) by linarith
    then have "int (ncards st) dvd - i" by (simp add: dvd_eq_mod_eq_0)
    then show "int (ncards st) dvd i" by simp
  next
    assume v: "int (ncards st) dvd i"
    then have "int (ncards st) dvd - i" by simp
    then have "(- i) mod int (ncards st) = 0" by (simp only: mod_eq_0_iff_dvd)
    moreover have "i mod int (ncards st) = 0" using v by (simp only: mod_eq_0_iff_dvd)
    ultimately show "- ((- i) mod int (ncards st)) = i mod int (ncards st)" by simp
  qed
  have m: "((i mod int (ncards st)) + int (ncards st)) mod int (ncards st) = i mod int (ncards st)"
    by simp
  show ?thesis using a b r n d unfolding m by auto
qed

theorem goToSlide_wraps_witness:
  "currentIndex (goToSlide \<lparr>ncards = 5, currentIndex = 0, track_transform = None,
              dots = [True, False, False, False, False],
              autoPlayTimer = None, timers = [], next_handle = 0,
              touchStartX = 0, touchEndX = 0, prefersReducedMotion = False\<rparr> (- 1)) = 4
   \<and> currentIndex (goToSlide \<lparr>ncards = 5, currentIndex = 0, track_transform = None,
              dots = [True, False, False, False, False],
              autoPlayTimer = None, timers = [], next_handle = 0,
              touchStartX = 0, touchEndX = 0, prefersReducedMotion = False\<rparr> (- 5)) = 0
   \<and> currentIndex (goToSlide \<lparr>ncards = 5, currentIndex = 0, track_transform = None,
              dots = [True, False, False, False, False],
              autoPlayTimer = None, timers = [], next_handle = 0,
              touchStartX = 0, touchEndX = 0, prefersReducedMotion = False\<rparr> 12) = 2
   \<and> currentIndex (goToSlide \<lparr>ncards = 5, currentIndex = 0, track_transform = None,
              dots = [True, False, False, False, False],
              autoPlayTimer = None, timers = [], next_handle = 0,
              touchStartX = 0, touchEndX = 0, prefersReducedMotion = False\<rparr> (- 11)) = - 1"
  using
    goToSlide_wraps [of "\<lparr>ncards = 5, currentIndex = 0, track_transform = None,
              dots = [True, False, False, False, False],
              autoPlayTimer = None, timers = [], next_handle = 0,
              touchStartX = 0, touchEndX = 0, prefersReducedMotion = False\<rparr>" "- 11"]
    goToSlide_wraps [of "\<lparr>ncards = 5, currentIndex = 0, track_transform = None,
              dots = [True, False, False, False, False],
              autoPlayTimer = None, timers = [], next_handle = 0,
              touchStartX = 0, touchEndX = 0, prefersReducedMotion = False\<rparr>" "- 1"]
    goToSlide_wraps [of "\<lparr>ncards = 5, currentIndex = 0, track_transform = None,
              dots = [True, False, False, False, False],
              autoPlayTimer = None, timers = [], next_handle = 0,
              touchStartX = 0, touchEndX = 0, prefersReducedMotion = False\<rparr>" "- 5"]
    goToSlide_wraps [of "\<lparr>ncards = 5, currentIndex = 0, track_transform = None,
              dots = [True, False, False, False, False],
              autoPlayTimer = None, timers = [], next_handle = 0,
              touchStartX = 0, touchEndX = 0, prefersReducedMotion = False\<rparr>" 12]
  by simp

text \<open>
  As the claim C1 was stated, for every integer \<open>i\<close>, it fails below \<open>- n\<close>: the script adds
  \<open>n\<close> once and takes the truncated remainder, so with five cards \<^verbatim>\<open>goToSlide(-7)\<close> leaves the
  index \<open>- 2\<close>, where the residue is \<open>3\<close>.
\<close>

theorem goToSlide_far_negative_counterexample:
  "currentIndex (goToSlide \<lparr>ncards = 5, currentIndex = 0, track_transform = None, dots = [True, False, False, False, False],
              autoPlayTimer = None, timers = [], next_handle = 0,
              touchStartX = 0, touchEndX = 0, prefersReducedMotion = False\<rparr> (- 7)) = - 2
   \<and> ((- 7 mod 5) + 5) mod 5 = (3 :: int)"
  by (simp add: goToSlide_def js_rem_def)

text \<open>
  Claim C2. On a page with the elements of the carousel and \<open>n > 0\<close> cards,
  \<^verbatim>\<open>initTestimonialsCarousel\<close> leaves the index \<open>0\<close>, and from there, under any sequence of the
  events the carousel listens to (previous and next button, a dot, the arrow keys, a tick of
  the timer, pointer entering and leaving, touch start and end), the index stays in \<open>[0, n)\<close>.
\<close>

theorem carousel_index_in_range:
  assumes "track page" and "prevBtn page" and "nextBtn page" and "dotsContainer page"
    and "0 < cards page"
  shows "\<exists>st0. initTestimonialsCarousel page = Inr (Some st0)
           \<and> currentIndex st0 = 0
           \<and> (\<forall>acts. 0 \<le> currentIndex (run st0 acts)
                      \<and> currentIndex (run st0 acts) < int (cards page))"
proof -
  obtain st0 where s: "initTestimonialsCarousel page = Inr (Some st0)"
    using assms by (simp add: initTestimonialsCarousel_def)
  have i: "carousel_inv st0" and n: "ncards st0 = cards page"
    using init_Some [OF s] by simp_all
  have z: "currentIndex st0 = 0"
    using s
    by (auto simp: initTestimonialsCarousel_def currentIndex_goToSlide js_rem_def split: if_splits)
  have "0 \<le> currentIndex (run st0 acts) \<and> currentIndex (run st0 acts) < int (cards page)"
    for acts
  proof -
    have "carousel_inv (run st0 acts)" using i by (rule carousel_run_inv)
    then show ?thesis using n by (simp add: carousel_inv_def run_ncards)
  qed
  then show ?thesis using s z by blast
qed

theorem carousel_index_in_range_witness:
  "initTestimonialsCarousel
     \<lparr>track = True, prevBtn = True, nextBtn = True, dotsContainer = True, cards = 5,
      reduced_motion = False\<rparr>
     = Inr (Some \<lparr>ncards = 5, currentIndex = 0, track_transform = Some 0,
                  dots = [True, False, False, False, False],
                  autoPlayTimer = Some 0, timers = [0], next_handle = 1,
                  touchStartX = 0, touchEndX = 0, prefersReducedMotion = False\<rparr>)
   \<and> currentIndex (run \<lparr>ncards = 5, currentIndex = 0, track_transform = Some 0,
                  dots = [True, False, False, False, False],
                  autoPlayTimer = Some 0, timers = [0], next_handle = 1,
                  touchStartX = 0, touchEndX = 0, prefersReducedMotion = False\<rparr>
         [PrevClick]) = 4
   \<and> currentIndex (run \<lparr>ncards = 5, currentIndex = 0, track_transform = Some 0,
                  dots = [True, False, False, False, False],
                  autoPlayTimer = Some 0, timers = [0], next_handle = 1,
                  touchStartX = 0, touchEndX = 0, prefersReducedMotion = False\<rparr>
         [PrevClick, NextClick, AutoTick 2, TouchStart 300, TouchEnd 100, DotClick 3,
          KeyDown ArrowLeft 500 100 800]) = 2"
  using carousel_index_in_range [of
     "\<lparr>track = True, prevBtn = True, nextBtn = True, dotsContainer = True, cards = 5,
      reduced_motion = False\<rparr>"]
  by (simp add: initTestimonialsCarousel_def goToSlide_def startAutoPlay_def js_rem_def
        run_def resetAutoPlay_def clearInterval_def upt_rec)

text \<open>
  Claim C6 does not hold of the script: a page with the track, both buttons and at least one
  card but without \<^verbatim>\<open>#testimonialDots\<close> makes \<^verbatim>\<open>initTestimonialsCarousel\<close> raise a \<^verbatim>\<open>TypeError\<close>
  (it tests the three other elements it queries, not this one), where the claim promises a
  silent return.
\<close>

theorem carousel_without_dots_faults:
  assumes "track page" and "prevBtn page" and "nextBtn page" and "0 < cards page"
    and "\<not> dotsContainer page"
  shows "initTestimonialsCarousel page = Inl TypeError"
  using assms by (simp add: initTestimonialsCarousel_def)

theorem carousel_without_dots_faults_witness:
  "initTestimonialsCarousel
     \<lparr>track = True, prevBtn = True, nextBtn = True, dotsContainer = False, cards = 3,
      reduced_motion = False\<rparr> = Inl TypeError
   \<and> initTestimonialsCarousel
     \<lparr>track = True, prevBtn = True, nextBtn = True, dotsContainer = False, cards = 3,
      reduced_motion = False\<rparr> \<noteq> Inr None"
  using carousel_without_dots_faults [of
     "\<lparr>track = True, prevBtn = True, nextBtn = True, dotsContainer = False, cards = 3,
      reduced_motion = False\<rparr>"]
  by simp

section \<open>The scroll progress bar and the pointer follower\<close>

lemma clamp_range: "lo \<le> hi \<Longrightarrow> lo \<le> clamp v lo hi \<and> clamp v lo hi \<le> hi"
  by (simp add: clamp_def)

text \<open>
  Claim C10. On every frame of the progress bar, whatever the heights and the offset, the
  progress is \<open>0\<close> when the scrollable height is not positive (nothing is divided then), and the
  width written is \<open>clamp(progress, 0, 100)\<close>, between \<open>0\<close> and \<open>100\<close> percent.
\<close>

theorem progress_width_guarded:
  "(scrollHeight - innerHeight \<le> 0 \<longrightarrow> scroll_progress scrollHeight innerHeight scrollY = 0)
   \<and> (0 < scrollHeight - innerHeight \<longrightarrow>
        scroll_progress scrollHeight innerHeight scrollY
          = scrollY / (scrollHeight - innerHeight) * 100)
   \<and> bar_width (on_frame st scrollHeight innerHeight scrollY)
        = Some (clamp (scroll_progress scrollHeight innerHeight scrollY) 0 100)
   \<and> 0 \<le> clamp (scroll_progress scrollHeight innerHeight scrollY) 0 100
   \<and> clamp (scroll_progress scrollHeight innerHeight scrollY) 0 100 \<le> 100"
  using clamp_range [of 0 100 "scroll_progress scrollHeight innerHeight scrollY"]
  by (simp add: scroll_progress_def on_frame_def Let_def)

theorem progress_width_guarded_witness:
  "bar_width (on_frame \<lparr>ticking = True, bar_width = None\<rparr> 3000 1000 500) = Some 25
   \<and> bar_width (on_frame \<lparr>ticking = True, bar_width = None\<rparr> 600 800 0) = Some 0
   \<and> bar_width (on_frame \<lparr>ticking = True, bar_width = None\<rparr> 3000 1000 2500) = Some 100"
  using progress_width_guarded [of 3000 1000 500 "\<lparr>ticking = True, bar_width = None\<rparr>"]
        progress_width_guarded [of 600 800 0 "\<lparr>ticking = True, bar_width = None\<rparr>"]
        progress_width_guarded [of 3000 1000 2500 "\<lparr>ticking = True, bar_width = None\<rparr>"]
  by (simp add: clamp_def)

lemma updateCursor_fields:
  "mouseX (updateCursor st) = mouseX st" "mouseY (updateCursor st) = mouseY st"
  "ringX (updateCursor st) = ringX st + (mouseX st - ringX st) * LERP_FACTOR"
  "ringY (updateCursor st) = ringY st + (mouseY st - ringY st) * LERP_FACTOR"
  by (simp_all add: updateCursor_def Let_def)

lemma updateCursor_gap:
  "mouseX (updateCursor st) - ringX (updateCursor st) = (88 / 100) * (mouseX st - ringX st)
 \<and> mouseY (updateCursor st) - ringY (updateCursor st) = (88 / 100) * (mouseY st - ringY st)"
  unfolding updateCursor_fields LERP_FACTOR_def by (intro conjI; argo)

lemma frames_mouse: "mouseX (frames k st) = mouseX st \<and> mouseY (frames k st) = mouseY st"
  by (induction k arbitrary: st) (simp_all add: updateCursor_fields)

lemma frames_gap:
  "mouseX st - ringX (frames k st) = (88 / 100) ^ k * (mouseX st - ringX st)
 \<and> mouseY st - ringY (frames k st) = (88 / 100) ^ k * (mouseY st - ringY st)"
proof (induction k arbitrary: st)
  case 0
  show ?case by simp
next
  case (Suc k)
  have "mouseX st - ringX (frames k (updateCursor st))
          = (88 / 100) ^ k * (mouseX (updateCursor st) - ringX (updateCursor st))"
       "mouseY st - ringY (frames k (updateCursor st))
          = (88 / 100) ^ k * (mouseY (updateCursor st) - ringY (updateCursor st))"
    using Suc [of "updateCursor st"] by (simp_all add: updateCursor_fields)
  then show ?case by (simp add: updateCursor_gap)
qed

lemma gap_tends_to_zero:
  fixes d :: real
  shows "(\<lambda>k. (88 / 100) ^ k * d) \<longlonglongrightarrow> 0"
proof -
  have "(\<lambda>k. ((88 / 100) :: real) ^ k) \<longlonglongrightarrow> 0"
    by (rule LIMSEQ_realpow_zero) simp_all
  then have "(\<lambda>k. (88 / 100) ^ k * d) \<longlonglongrightarrow> 0 * d"
    by (rule tendsto_mult_right)
  then show ?thesis by simp
qed

lemma ring_converges_y: "(\<lambda>k. ringY (frames k st)) \<longlonglongrightarrow> mouseY st"
proof -
  have "(\<lambda>k. mouseY st - (88 / 100) ^ k * (mouseY st - ringY st)) \<longlonglongrightarrow> mouseY st - 0"
    by (intro tendsto_diff tendsto_const gap_tends_to_zero)
  moreover have "ringY (frames k st) = mouseY st - (88 / 100) ^ k * (mouseY st - ringY st)" for k
    using frames_gap [of st k] by simp
  ultimately show ?thesis by simp
qed

lemma ring_converges_x: "(\<lambda>k. ringX (frames k st)) \<longlonglongrightarrow> mouseX st"
proof -
  have "(\<lambda>k. mouseX st - (88 / 100) ^ k * (mouseX st - ringX st)) \<longlonglongrightarrow> mouseX st - 0"
    by (intro tendsto_diff tendsto_const gap_tends_to_zero)
  moreover have "ringX (frames k st) = mouseX st - (88 / 100) ^ k * (mouseX st - ringX st)" for k
    using frames_gap [of st k] by simp
  ultimately show ?thesis by simp
qed

text \<open>
  Claim C9, in exact arithmetic as it says. Every frame moves the ring towards the pointer by
  \<open>0.12\<close> of the remaining distance on each axis, which leaves \<open>0.88\<close> of it; so while the
  pointer rests, after \<open>k\<close> frames \<open>0.88 ^ k\<close> of the distance remains: a ring that is not on
  the pointer never reaches it, and it converges to it.
\<close>

theorem trail_approaches_lead:
  assumes "ringX st \<noteq> mouseX st \<or> ringY st \<noteq> mouseY st"
  shows "ringX (updateCursor st) - ringX st = (12 / 100) * (mouseX st - ringX st)
       \<and> ringY (updateCursor st) - ringY st = (12 / 100) * (mouseY st - ringY st)
       \<and> mouseX (updateCursor st) - ringX (updateCursor st) = (88 / 100) * (mouseX st - ringX st)
       \<and> mouseY (updateCursor st) - ringY (updateCursor st) = (88 / 100) * (mouseY st - ringY st)
       \<and> mouseX st - ringX (frames k st) = (88 / 100) ^ k * (mouseX st - ringX st)
       \<and> mouseY st - ringY (frames k st) = (88 / 100) ^ k * (mouseY st - ringY st)
       \<and> (ringX (frames k st) \<noteq> mouseX (frames k st) \<or> ringY (frames k st) \<noteq> mouseY (frames k st))
       \<and> (\<lambda>k. ringX (frames k st)) \<longlonglongrightarrow> mouseX st
       \<and> (\<lambda>k. ringY (frames k st)) \<longlonglongrightarrow> mouseY st"
proof -
  have step: "ringX (updateCursor st) - ringX st = (12 / 100) * (mouseX st - ringX st)
       \<and> ringY (updateCursor st) - ringY st = (12 / 100) * (mouseY st - ringY st)"
    unfolding updateCursor_fields LERP_FACTOR_def by (intro conjI; argo)
  have "mouseX st - ringX (frames k st) \<noteq> 0 \<or> mouseY st - ringY (frames k st) \<noteq> 0"
    using assms by (auto simp: frames_gap)
  then have apart: "ringX (frames k st) \<noteq> mouseX (frames k st) \<or> ringY (frames k st) \<noteq> mouseY (frames k st)"
    by (auto simp: frames_mouse)
  show ?thesis
    using step updateCursor_gap [of st] frames_gap [of st k] apart ring_converges_x [of st] ring_converges_y [of st]
    by blast
qed

theorem trail_approaches_lead_witness:
  "ringX (frames 2 \<lparr>mouseX = 100, mouseY = 50, ringX = 0, ringY = 0,
              dot_left = 0, dot_top = 0, ring_left = 0, ring_top = 0\<rparr>) = 2256 / 100
   \<and> ringX (frames 2 \<lparr>mouseX = 100, mouseY = 50, ringX = 0, ringY = 0,
              dot_left = 0, dot_top = 0, ring_left = 0, ring_top = 0\<rparr>) \<noteq> 100"
  using trail_approaches_lead [of "\<lparr>mouseX = 100, mouseY = 50, ringX = 0, ringY = 0,
              dot_left = 0, dot_top = 0, ring_left = 0, ring_top = 0\<rparr>" 2]
  by (simp add: power2_eq_square)

section \<open>The viewport reveal\<close>

lemma on_entry_keeps: "e \<in> revealed st \<Longrightarrow> e \<in> revealed (on_entry st en)"
  by (simp add: on_entry_def)

lemma callback_keeps: "e \<in> revealed st \<Longrightarrow> e \<in> revealed (observer_callback st es)"
  unfolding observer_callback_def
  by (induction es arbitrary: st) (simp_all add: on_entry_keeps)

lemma on_entry_observed: "observed (on_entry st en) \<subseteq> observed st"
  by (auto simp: on_entry_def)

lemma callback_observed: "observed (observer_callback st es) \<subseteq> observed st"
  unfolding observer_callback_def
proof (induction es arbitrary: st)
  case Nil
  show ?case by simp
next
  case (Cons en es)
  have "observed (foldl on_entry (on_entry st en) es) \<subseteq> observed (on_entry st en)"
    by (rule Cons.IH)
  then show ?case using on_entry_observed [of st en] by auto
qed

lemma on_entry_settled: "settled e before st \<Longrightarrow> settled e before (on_entry st en)"
  by (auto simp: settled_def on_entry_def)

lemma callback_settled: "settled e before st \<Longrightarrow> settled e before (observer_callback st es)"
  unfolding observer_callback_def
  by (induction es arbitrary: st) (simp_all add: on_entry_settled)

lemma callbacks_settled: "settled e before st \<Longrightarrow> settled e before (foldl observer_callback st ess)"
  by (induction ess arbitrary: st) (simp_all add: callback_settled)

lemma callbacks_observed: "observed (foldl observer_callback st ess) \<subseteq> observed st"
proof (induction ess arbitrary: st)
  case Nil
  show ?case by simp
next
  case (Cons es ess)
  have "observed (foldl observer_callback (observer_callback st es) ess) \<subseteq> observed (observer_callback st es)"
    by (rule Cons.IH)
  then show ?case using callback_observed [of st es] by auto
qed

lemma reveal_trace_hd: "\<exists>rest. reveal_trace st ess = st # rest"
  by (cases ess) simp_all

lemma trace_revealed_stays:
  "e \<in> revealed st \<Longrightarrow> rises (map (\<lambda>s. e \<in> revealed s) (reveal_trace st ess)) = 0
     \<and> falls (map (\<lambda>s. e \<in> revealed s) (reveal_trace st ess)) = 0"
proof (induction ess arbitrary: st)
  case Nil
  show ?case by simp
next
  case (Cons es ess)
  let ?st = "observer_callback st es"
  have k: "e \<in> revealed ?st" using Cons.prems by (rule callback_keeps)
  obtain rest where r: "reveal_trace ?st ess = ?st # rest" using reveal_trace_hd by blast
  show ?case using Cons.IH [OF k] Cons.prems k by (simp add: r)
qed

lemma trace_flips:
  "rises (map (\<lambda>s. e \<in> revealed s) (reveal_trace st ess)) \<le> 1
     \<and> falls (map (\<lambda>s. e \<in> revealed s) (reveal_trace st ess)) = 0"
proof (induction ess arbitrary: st)
  case Nil
  show ?case by simp
next
  case (Cons es ess)
  let ?st = "observer_callback st es"
  obtain rest where r: "reveal_trace ?st ess = ?st # rest" using reveal_trace_hd by blast
  show ?case
  proof (cases "e \<in> revealed ?st")
    case True
    then show ?thesis using trace_revealed_stays [OF True, of ess] by (simp add: r)
  next
    case False
    then have "e \<notin> revealed st" using callback_keeps [of e st es] by auto
    then show ?thesis using Cons.IH [of ?st] False by (simp add: r)
  qed
qed

text \<open>
  Claim C8. Under any sequence of observer callbacks an element never goes from revealed to
  not revealed and goes from not revealed to revealed at most once; once a callback has
  revealed it, it is no longer observed, and nothing is ever observed anew. With the
  reduced-motion preference, initialisation reveals every flagged element and observes none.
\<close>

theorem reveal_one_shot:
  "falls (map (\<lambda>s. e \<in> revealed s) (reveal_trace st ess)) = 0
   \<and> rises (map (\<lambda>s. e \<in> revealed s) (reveal_trace st ess)) \<le> 1
   \<and> (e \<in> revealed st \<longrightarrow> e \<in> revealed (foldl observer_callback st ess))
   \<and> (e \<notin> revealed st \<longrightarrow> e \<in> revealed (foldl observer_callback st ess)
        \<longrightarrow> e \<notin> observed (foldl observer_callback st ess))
   \<and> observed (foldl observer_callback st ess) \<subseteq> observed st
   \<and> set flagged \<subseteq> revealed (initScrollAnimations True flagged pre)
   \<and> observed (initScrollAnimations True flagged pre) = {}"
proof -
  have "settled e (revealed st) st" by (simp add: settled_def)
  then have "settled e (revealed st) (foldl observer_callback st ess)" by (rule callbacks_settled)
  then have a: "e \<notin> revealed st \<longrightarrow> e \<in> revealed (foldl observer_callback st ess)
        \<longrightarrow> e \<notin> observed (foldl observer_callback st ess)"
    by (auto simp: settled_def)
  have b: "e \<in> revealed st \<longrightarrow> e \<in> revealed (foldl observer_callback st ess)"
    by (induction ess arbitrary: st) (simp_all add: callback_keeps)
  show ?thesis using trace_flips [of e st ess] a b callbacks_observed [of st ess]
    by (simp add: initScrollAnimations_def)
qed

theorem reveal_one_shot_witness:
  "rises (map (\<lambda>s. (2::nat) \<in> revealed s)
      (reveal_trace (initScrollAnimations False [1, 2, 3] {})
         [[\<lparr>entry_target = 1, isIntersecting = True\<rparr>, \<lparr>entry_target = 2, isIntersecting = False\<rparr>],
          [\<lparr>entry_target = 2, isIntersecting = True\<rparr>],
          [\<lparr>entry_target = 2, isIntersecting = False\<rparr>, \<lparr>entry_target = 3, isIntersecting = True\<rparr>]])) = 1
   \<and> (2::nat) \<notin> revealed (initScrollAnimations False [1, 2, 3] {})
   \<and> (2::nat) \<in> revealed (foldl observer_callback (initScrollAnimations False [1, 2, 3] {})
         [[\<lparr>entry_target = 1, isIntersecting = True\<rparr>, \<lparr>entry_target = 2, isIntersecting = False\<rparr>],
          [\<lparr>entry_target = 2, isIntersecting = True\<rparr>],
          [\<lparr>entry_target = 2, isIntersecting = False\<rparr>, \<lparr>entry_target = 3, isIntersecting = True\<rparr>]])
   \<and> (2::nat) \<notin> observed (foldl observer_callback (initScrollAnimations False [1, 2, 3] {})
         [[\<lparr>entry_target = 1, isIntersecting = True\<rparr>, \<lparr>entry_target = 2, isIntersecting = False\<rparr>],
          [\<lparr>entry_target = 2, isIntersecting = True\<rparr>],
          [\<lparr>entry_target = 2, isIntersecting = False\<rparr>, \<lparr>entry_target = 3, isIntersecting = True\<rparr>]])"
  using reveal_one_shot [of 2 "initScrollAnimations False [1, 2, 3] {}"
         "[[\<lparr>entry_target = 1, isIntersecting = True\<rparr>, \<lparr>entry_target = 2, isIntersecting = False\<rparr>],
          [\<lparr>entry_target = 2, isIntersecting = True\<rparr>],
          [\<lparr>entry_target = 2, isIntersecting = False\<rparr>, \<lparr>entry_target = 3, isIntersecting = True\<rparr>]]"]
  by (simp add: initScrollAnimations_def observer_callback_def on_entry_def)

section \<open>The e-mail pattern\<close>

text \<open>The matcher decides the language of the expression.\<close>

lemma nullable_lang: "nullable r \<longleftrightarrow> [] \<in> lang r"
  by (induction r) (auto intro: star.intros)

lemma star_cons_split:
  "w \<in> star L \<Longrightarrow> w = c # s \<Longrightarrow> \<exists>u v. s = u @ v \<and> c # u \<in> L \<and> v \<in> star L"
proof (induction arbitrary: s rule: star.induct)
  case star_empty
  then show ?case by simp
next
  case (star_more u v)
  show ?case
  proof (cases u)
    case Nil
    then show ?thesis using star_more by simp
  next
    case (Cons a u')
    then have "s = u' @ v" "c # u' \<in> L" using star_more.hyps(1) star_more.prems by simp_all
    then show ?thesis using star_more.hyps(2) by blast
  qed
qed

lemma star_cons:
  "c # s \<in> star L \<longleftrightarrow> (\<exists>u v. s = u @ v \<and> c # u \<in> L \<and> v \<in> star L)"
proof
  assume "c # s \<in> star L"
  then show "\<exists>u v. s = u @ v \<and> c # u \<in> L \<and> v \<in> star L"
    using star_cons_split by blast
next
  assume "\<exists>u v. s = u @ v \<and> c # u \<in> L \<and> v \<in> star L"
  then obtain u v where "s = u @ v" "c # u \<in> L" "v \<in> star L" by blast
  then show "c # s \<in> star L" using star_more [of "c # u" L v] by simp
qed

lemma deriv_lang: "s \<in> lang (deriv c r) \<longleftrightarrow> c # s \<in> lang r"
proof (induction r arbitrary: s)
  case (Then r1 r2)
  show ?case
    by (auto simp: Then nullable_lang Cons_eq_append_conv)
next
  case (Many r)
  show ?case by (auto simp: Many star_cons)
qed auto

lemma test_lang: "test r s \<longleftrightarrow> s \<in> lang r"
  unfolding test_def
  by (induction s arbitrary: r) (simp_all add: nullable_lang deriv_lang)

text \<open>
  The pattern of the script accepts exactly the strings the specification describes.
\<close>

lemma star_class: "star {[c] | c. p c} = {s. list_all p s}"
proof (intro set_eqI iffI)
  fix s assume "s \<in> star {[c] | c. p c}"
  then have "list_all p s" by (induction rule: star.induct) auto
  then show "s \<in> {s. list_all p s}" by simp
next
  fix s assume "s \<in> {s. list_all p s}"
  then have "list_all p s" by simp
  then show "s \<in> star {[c] | c. p c}"
  proof (induction s)
    case Nil
    show ?case by (rule star_empty)
  next
    case (Cons c s)
    then have "[c] \<in> {[c] | c. p c}" "s \<in> star {[c] | c. p c}" by simp_all
    then have "[c] @ s \<in> star {[c] | c. p c}" by (rule star_more)
    then show ?case by simp
  qed
qed

lemma lang_Plus_Class: "lang (Plus (Class p)) = {s. s \<noteq> [] \<and> list_all p s}"
proof (intro set_eqI iffI)
  fix s assume "s \<in> lang (Plus (Class p))"
  then show "s \<in> {s. s \<noteq> [] \<and> list_all p s}"
    by (auto simp: Plus_def star_class)
next
  fix s assume "s \<in> {s. s \<noteq> [] \<and> list_all p s}"
  then obtain c v where s: "s = [c] @ v" "p c" "list_all p v" by (cases s) auto
  then have "[c] \<in> lang (Class p)" "v \<in> lang (Many (Class p))" by (simp_all add: star_class)
  then show "s \<in> lang (Plus (Class p))" unfolding Plus_def lang.simps(5) s(1) by blast
qed

lemma lang_plain: "lang (Plus (Class (\<lambda>c. \<not> (is_space c \<or> c = 64)))) = {s. plain_part s}"
  by (simp add: lang_Plus_Class plain_part_def)

lemma test_emailRegex: "test emailRegex s \<longleftrightarrow> email_pattern s"
proof -
  have "s \<in> lang emailRegex \<longleftrightarrow> email_pattern s"
    unfolding emailRegex_def email_pattern_def lang.simps(5) lang_plain lang.simps(3)
    by (simp; blast)
  then show ?thesis by (simp add: test_lang)
qed

lemma email_bad_iff: "email_bad v \<longleftrightarrow> \<not> email_pattern (trim v)"
  by (simp add: email_bad_def test_emailRegex)

section \<open>The contact form: validation\<close>

lemma fvalue_markInvalid:
  "map_option fvalue (control (markInvalid st f m) g) = map_option fvalue (control st g)"
  by (simp add: markInvalid_def Let_def split: option.splits)

lemma fvalue_clear_errors:
  "map_option fvalue (control (clear_errors st) g) = map_option fvalue (control st g)"
  by (simp add: clear_errors_def split: option.splits)

lemma bad_at_alt: "bad_at st f = (case map_option fvalue (control st f) of None \<Rightarrow> False | Some v \<Rightarrow> rule_bad f v)"
  by (simp add: bad_at_def split: option.splits)

lemma bad_at_markInvalid: "bad_at (markInvalid st f m) g = bad_at st g"
  by (simp add: bad_at_alt fvalue_markInvalid)

lemma bad_at_clear_errors: "bad_at (clear_errors st) g = bad_at st g"
  by (simp add: bad_at_alt fvalue_clear_errors)

lemma bad_at_check_field: "bad_at (snd (check_field f bad m r)) g = bad_at (snd r) g"
  by (simp add: check_field_def bad_at_markInvalid split: option.splits)

lemma valid_check_field:
  "valid (fst (check_field f (rule_bad f) m r)) = (valid (fst r) \<and> \<not> bad_at (snd r) f)"
  by (simp add: check_field_def bad_at_def split: option.splits)

lemma rule_bad_simps:
  "rule_bad NomeInput = nome_bad" "rule_bad EmailInput = email_bad" "rule_bad MensagemInput = mensagem_bad"
  by (simp_all add: rule_bad_def fun_eq_iff)

lemma validateForm_alt:
  "validateForm st =
     check_field MensagemInput (rule_bad MensagemInput) MensagemCurta
       (check_field EmailInput (rule_bad EmailInput) EmailInvalido
          (check_field NomeInput (rule_bad NomeInput) NomeCurto
             (\<lparr>valid = True, firstInvalidField = None\<rparr>, clear_errors st)))"
  by (simp add: validateForm_def rule_bad_simps)

lemma valid_validateForm:
  "valid (fst (validateForm st)) = (\<not> bad_at st NomeInput \<and> \<not> bad_at st EmailInput \<and> \<not> bad_at st MensagemInput)"
  unfolding validateForm_alt
  by (simp only: valid_check_field bad_at_check_field bad_at_clear_errors snd_conv fst_conv validation.simps) simp

lemma bad_at_validateForm: "bad_at (snd (validateForm st)) g = bad_at st g"
  unfolding validateForm_alt
  by (simp only: bad_at_check_field bad_at_clear_errors snd_conv)

lemma first_check_field:
  "firstInvalidField (fst (check_field f (rule_bad f) m r)) =
     (if bad_at (snd r) f \<and> firstInvalidField (fst r) = None then Some f else firstInvalidField (fst r))"
  by (simp add: check_field_def bad_at_def split: option.splits)

lemma first_validateForm:
  "firstInvalidField (fst (validateForm st)) =
     (if bad_at st NomeInput then Some NomeInput
      else if bad_at st EmailInput then Some EmailInput
      else if bad_at st MensagemInput then Some MensagemInput else None)"
  unfolding validateForm_alt
  by (simp only: first_check_field bad_at_check_field bad_at_clear_errors snd_conv fst_conv validation.simps) simp

lemma control_clear_errors:
  "control (clear_errors st) f = map_option cleared (control st f)"
  by (simp add: clear_errors_def cleared_def split: option.splits)

lemma control_markInvalid:
  "control (markInvalid st f m) g =
     (if g = f then map_option (marked (next_span st) m) (control st f) else control st g)"
  by (simp add: markInvalid_def marked_def Let_def split: option.splits)

lemma control_check_field_other:
  "g \<noteq> f \<Longrightarrow> control (snd (check_field f bad m r)) g = control (snd r) g"
  by (simp add: check_field_def control_markInvalid split: option.splits)

lemma control_check_field_self:
  "control (snd (check_field f bad m r)) f =
     map_option (\<lambda>fld. if bad (fvalue fld) then marked (next_span (snd r)) m fld else fld)
       (control (snd r) f)"
  by (simp add: check_field_def control_markInvalid split: option.splits)

lemma fvalue_cleared: "fvalue (cleared fld) = fvalue fld"
  by (simp add: cleared_def)

lemma control_validateForm_None:
  "control st f = None \<Longrightarrow> control (snd (validateForm st)) f = None"
  unfolding validateForm_alt
  by (cases f)
     (simp_all add: control_check_field_other control_check_field_self control_clear_errors)

lemma control_validateForm_Some:
  assumes "control st f = Some fld"
  shows "\<exists>k. control (snd (validateForm st)) f = Some (checked f k fld)"
proof (cases f)
  case NomeInput
  show ?thesis using assms unfolding validateForm_alt NomeInput
    by (intro exI [of _ "next_span (clear_errors st)"])
       (simp add: control_check_field_other control_check_field_self control_clear_errors
          checked_def message_of_def fvalue_cleared)
next
  case EmailInput
  show ?thesis using assms unfolding validateForm_alt EmailInput
    by (intro exI [of _ "next_span (snd (check_field NomeInput (rule_bad NomeInput) NomeCurto
             (\<lparr>valid = True, firstInvalidField = None\<rparr>, clear_errors st)))"])
       (simp add: control_check_field_other control_check_field_self control_clear_errors
          checked_def message_of_def fvalue_cleared)
next
  case MensagemInput
  show ?thesis using assms unfolding validateForm_alt MensagemInput
    by (intro exI [of _ "next_span (snd (check_field EmailInput (rule_bad EmailInput) EmailInvalido
          (check_field NomeInput (rule_bad NomeInput) NomeCurto
             (\<lparr>valid = True, firstInvalidField = None\<rparr>, clear_errors st))))"])
       (simp add: control_check_field_other control_check_field_self control_clear_errors
          checked_def message_of_def fvalue_cleared)
next
  case EmpresaInput
  show ?thesis using assms unfolding validateForm_alt EmpresaInput
    by (simp add: control_check_field_other control_clear_errors checked_def rule_bad_def)
next
  case ServicoSelect
  show ?thesis using assms unfolding validateForm_alt ServicoSelect
    by (simp add: control_check_field_other control_clear_errors checked_def rule_bad_def)
qed

lemma rest_markInvalid:
  "submitBtn (markInvalid st f m) = submitBtn st" "feedback (markInvalid st f m) = feedback st"
  "pending (markInvalid st f m) = pending st" "effects (markInvalid st f m) = effects st"
  by (simp_all add: markInvalid_def Let_def split: option.splits)

lemma rest_clear_errors:
  "submitBtn (clear_errors st) = submitBtn st" "feedback (clear_errors st) = feedback st"
  "pending (clear_errors st) = pending st" "effects (clear_errors st) = effects st"
  by (simp_all add: clear_errors_def)

lemma rest_check_field:
  "submitBtn (snd (check_field f bad m r)) = submitBtn (snd r)"
  "feedback (snd (check_field f bad m r)) = feedback (snd r)"
  "pending (snd (check_field f bad m r)) = pending (snd r)"
  "effects (snd (check_field f bad m r)) = effects (snd r)"
  by (simp_all add: check_field_def rest_markInvalid split: option.splits)

lemma rest_validateForm:
  "submitBtn (snd (validateForm st)) = submitBtn st" "feedback (snd (validateForm st)) = feedback st"
  "pending (snd (validateForm st)) = pending st" "effects (snd (validateForm st)) = effects st"
  by (simp_all add: validateForm_def rest_check_field rest_clear_errors)

lemma has_error_checked:
  "has_error (checked f k fld) \<longleftrightarrow> rule_bad f (fvalue fld) \<or> (has_error fld \<and> \<not> form_input fld)"
  by (auto simp: checked_def marked_def cleared_def)

lemma has_error_validateForm:
  assumes "control st f = Some fld"
  shows "\<exists>fld'. control (snd (validateForm st)) f = Some fld'
           \<and> (has_error fld' \<longleftrightarrow> rule_bad f (fvalue fld) \<or> (has_error fld \<and> \<not> form_input fld))"
proof -
  obtain k where "control (snd (validateForm st)) f = Some (checked f k fld)"
    using control_validateForm_Some [OF assms] by blast
  then show ?thesis by (simp add: has_error_checked)
qed

lemmas form_eval = initContactForm_def example_page_def form_run_def on_submit_def validateForm_def
  check_field_def markInvalid_def clear_errors_def nome_bad_def email_bad_def mensagem_bad_def
  collect_def begin_call_def on_settled_def showFeedback_def form_reset_def catch_block_def
  finally_block_def on_blur_def on_input_def trim_def of_ascii_def is_space_def
  test_def emailRegex_def Plus_def Let_def

text \<open>
  Claim C3. On a form that has the three controls, validation succeeds exactly when the
  trimmed name has at least 2 characters, the trimmed e-mail matches the pattern
  local-part, \<^verbatim>\<open>@\<close>, domain with a dot (no part empty, none with white space or \<^verbatim>\<open>@\<close>), and the
  trimmed message has at least 10 characters; the first control to fail is the one reported,
  and exactly the failing controls are marked (a control outside the class \<^verbatim>\<open>form-input\<close> also
  keeps an earlier marker). The name "A" fails and "Al" passes, the e-mail "a@b.c" passes and
  "a@b" fails, a message of 9 characters fails and one of 10 passes.
\<close>

theorem validation_rules:
  assumes "control st NomeInput = Some n" and "control st EmailInput = Some e"
    and "control st MensagemInput = Some m"
  shows "(valid (fst (validateForm st)) \<longleftrightarrow>
            2 \<le> length (trim (fvalue n)) \<and> email_pattern (trim (fvalue e))
            \<and> 10 \<le> length (trim (fvalue m)))
       \<and> firstInvalidField (fst (validateForm st)) =
           (if length (trim (fvalue n)) < 2 then Some NomeInput
            else if \<not> email_pattern (trim (fvalue e)) then Some EmailInput
            else if length (trim (fvalue m)) < 10 then Some MensagemInput else None)
       \<and> (\<exists>n'. control (snd (validateForm st)) NomeInput = Some n'
              \<and> (has_error n' \<longleftrightarrow> length (trim (fvalue n)) < 2 \<or> (has_error n \<and> \<not> form_input n)))
       \<and> (\<exists>e'. control (snd (validateForm st)) EmailInput = Some e'
              \<and> (has_error e' \<longleftrightarrow> \<not> email_pattern (trim (fvalue e)) \<or> (has_error e \<and> \<not> form_input e)))
       \<and> (\<exists>m'. control (snd (validateForm st)) MensagemInput = Some m'
              \<and> (has_error m' \<longleftrightarrow> length (trim (fvalue m)) < 10 \<or> (has_error m \<and> \<not> form_input m)))
       \<and> nome_bad (of_ascii ''A'') \<and> \<not> nome_bad (of_ascii ''Al'')
       \<and> \<not> email_bad (of_ascii ''a@b.c'') \<and> email_bad (of_ascii ''a@b'')
       \<and> mensagem_bad (of_ascii ''123456789'') \<and> \<not> mensagem_bad (of_ascii ''1234567890'')"
proof -
  have b: "bad_at st NomeInput \<longleftrightarrow> length (trim (fvalue n)) < 2"
      "bad_at st EmailInput \<longleftrightarrow> \<not> email_pattern (trim (fvalue e))"
      "bad_at st MensagemInput \<longleftrightarrow> length (trim (fvalue m)) < 10"
    using assms by (simp_all add: bad_at_def rule_bad_simps nome_bad_def email_bad_iff mensagem_bad_def)
  have v: "valid (fst (validateForm st)) \<longleftrightarrow>
            2 \<le> length (trim (fvalue n)) \<and> email_pattern (trim (fvalue e))
            \<and> 10 \<le> length (trim (fvalue m))"
    unfolding valid_validateForm b by auto
  have f: "firstInvalidField (fst (validateForm st)) =
           (if length (trim (fvalue n)) < 2 then Some NomeInput
            else if \<not> email_pattern (trim (fvalue e)) then Some EmailInput
            else if length (trim (fvalue m)) < 10 then Some MensagemInput else None)"
    unfolding first_validateForm b by simp
  have hn: "\<exists>n'. control (snd (validateForm st)) NomeInput = Some n'
              \<and> (has_error n' \<longleftrightarrow> length (trim (fvalue n)) < 2 \<or> (has_error n \<and> \<not> form_input n))"
    using has_error_validateForm [OF assms(1)] by (simp add: rule_bad_simps nome_bad_def)
  have he: "\<exists>e'. control (snd (validateForm st)) EmailInput = Some e'
              \<and> (has_error e' \<longleftrightarrow> \<not> email_pattern (trim (fvalue e)) \<or> (has_error e \<and> \<not> form_input e))"
    using has_error_validateForm [OF assms(2)] by (simp add: rule_bad_simps email_bad_iff)
  have hm: "\<exists>m'. control (snd (validateForm st)) MensagemInput = Some m'
              \<and> (has_error m' \<longleftrightarrow> length (trim (fvalue m)) < 10 \<or> (has_error m \<and> \<not> form_input m))"
    using has_error_validateForm [OF assms(3)] by (simp add: rule_bad_simps mensagem_bad_def)
  have x1: "nome_bad (of_ascii ''A'') \<and> \<not> nome_bad (of_ascii ''Al'')"
    by (simp add: nome_bad_def trim_def of_ascii_def is_space_def)
  have x2: "\<not> email_bad (of_ascii ''a@b.c'') \<and> email_bad (of_ascii ''a@b'')"
    by (simp add: email_bad_def trim_def test_def emailRegex_def Plus_def of_ascii_def is_space_def)
  have x3: "mensagem_bad (of_ascii ''123456789'') \<and> \<not> mensagem_bad (of_ascii ''1234567890'')"
    by (simp add: mensagem_bad_def trim_def of_ascii_def is_space_def)
  show ?thesis using v f hn he hm x1 x2 x3 by blast
qed

theorem validation_rules_witness:
  "valid (fst (validateForm (the (initContactForm
      (example_page (of_ascii ''Al'') (of_ascii ''a@b.c'') [] [] (of_ascii ''1234567890''))))))
   \<and> firstInvalidField (fst (validateForm (the (initContactForm
      (example_page (of_ascii '' Al '') (of_ascii ''a@b'') [] [] (of_ascii ''123456789''))))))
       = Some EmailInput"
  using
    validation_rules [of "the (initContactForm
        (example_page (of_ascii ''Al'') (of_ascii ''a@b.c'') [] [] (of_ascii ''1234567890'')))"
      "\<lparr>fvalue = of_ascii ''Al'', default_value = of_ascii ''Al'', form_input = True,
        required = True, has_error = False, field_errors = [], input_once = []\<rparr>"
      "\<lparr>fvalue = of_ascii ''a@b.c'', default_value = of_ascii ''a@b.c'', form_input = True,
        required = True, has_error = False, field_errors = [], input_once = []\<rparr>"
      "\<lparr>fvalue = of_ascii ''1234567890'', default_value = of_ascii ''1234567890'', form_input = True,
        required = True, has_error = False, field_errors = [], input_once = []\<rparr>"]
    validation_rules [of "the (initContactForm
        (example_page (of_ascii '' Al '') (of_ascii ''a@b'') [] [] (of_ascii ''123456789'')))"
      "\<lparr>fvalue = of_ascii '' Al '', default_value = of_ascii '' Al '', form_input = True,
        required = True, has_error = False, field_errors = [], input_once = []\<rparr>"
      "\<lparr>fvalue = of_ascii ''a@b'', default_value = of_ascii ''a@b'', form_input = True,
        required = True, has_error = False, field_errors = [], input_once = []\<rparr>"
      "\<lparr>fvalue = of_ascii ''123456789'', default_value = of_ascii ''123456789'', form_input = True,
        required = True, has_error = False, field_errors = [], input_once = []\<rparr>"]
  by (simp add: initContactForm_def example_page_def test_emailRegex [symmetric] trim_def of_ascii_def
        is_space_def test_def emailRegex_def Plus_def)

section \<open>The contact form: markers and messages\<close>

lemma field_ok_tracked: "field_ok f fld \<Longrightarrow> spans_tracked fld"
  by (auto simp: field_ok_def spans_tracked_def)

lemma marked_ok:
  assumes "spans_tracked fld" and "rule_bad f (fvalue fld)"
  shows "field_ok f (marked k m fld)"
proof -
  have "list_all (\<lambda>e. span_id e \<in> set (input_once fld)) (field_errors fld)"
    using assms(1) by (simp add: spans_tracked_def)
  then have "list_all (\<lambda>e. span_id e \<in> set (input_once fld))
               (case field_errors fld of [] \<Rightarrow> [] | existing # others \<Rightarrow> others)"
    by (cases "field_errors fld") simp_all
  then have "list_all (\<lambda>e. span_id e \<in> set (input_once fld @ [k]))
               (case field_errors fld of [] \<Rightarrow> [] | existing # others \<Rightarrow> others)"
    by (simp add: list_all_iff)
  then show ?thesis using assms(2)
    by (simp add: field_ok_def marked_def spans_tracked_def)
qed

lemma cleared_fields:
  "fvalue (cleared fld) = fvalue fld" "field_errors (cleared fld) = field_errors fld"
  "input_once (cleared fld) = input_once fld" "form_input (cleared fld) = form_input fld"
  "required (cleared fld) = required fld" "default_value (cleared fld) = default_value fld"
  by (simp_all add: cleared_def)

lemma cleared_tracked: "spans_tracked (cleared fld) = spans_tracked fld"
  by (simp add: spans_tracked_def cleared_fields)

lemma checked_ok: "field_ok f fld \<Longrightarrow> field_ok f (checked f k fld)"
proof (cases "rule_bad f (fvalue fld)")
  case True
  assume "field_ok f fld"
  then have "spans_tracked (cleared fld)" by (simp add: cleared_tracked field_ok_tracked)
  then show ?thesis using True by (simp add: checked_def marked_ok cleared_fields)
next
  case False
  assume "field_ok f fld"
  then have "field_errors fld = []" using False by (auto simp: field_ok_def)
  then show ?thesis using False by (simp add: checked_def field_ok_def cleared_fields)
qed

lemma checked_valid_empty:
  "field_ok f fld \<Longrightarrow> \<not> rule_bad f (fvalue fld) \<Longrightarrow> field_errors (checked f k fld) = []"
  by (auto simp: checked_def field_ok_def cleared_fields)

lemma checked_marker:
  "(has_error fld \<longrightarrow> field_errors fld \<noteq> [] \<or> form_input fld) \<Longrightarrow>
   has_error (checked f k fld) \<longrightarrow> field_errors (checked f k fld) \<noteq> []"
  by (auto simp: checked_def marked_def cleared_def)

lemma fvalue_checked: "fvalue (checked f k fld) = fvalue fld"
  by (simp add: checked_def marked_def cleared_def)

lemma begin_call_control: "control (fst (begin_call st d)) = control st"
  by (simp add: begin_call_def Let_def split: option.splits)

lemma on_submit_control: "control (fst (on_submit st)) = control (snd (validateForm st))"
  by (simp add: on_submit_def begin_call_control split: prod.splits sum.splits)

lemma on_submit_pending:
  assumes "0 < pending (fst (on_submit st))" and "pending st = 0"
  shows "valid (fst (validateForm st))"
proof -
  obtain v st1 where vs: "validateForm st = (v, st1)" by (cases "validateForm st")
  have p1: "pending st1 = 0" using rest_validateForm(3) [of st] assms(2) vs by simp
  show ?thesis
  proof (cases "valid v")
    case False
    then have "pending (fst (on_submit st)) = pending st1" by (simp add: on_submit_def vs)
    then show ?thesis using assms(1) p1 by simp
  next
    case True
    then show ?thesis using vs by simp
  qed
qed

lemma rule_bad_other: "f = EmpresaInput \<or> f = ServicoSelect \<Longrightarrow> \<not> rule_bad f v"
  by (auto simp: rule_bad_def)

lemma valid_no_bad:
  assumes "valid (fst (validateForm st))" and "control st f = Some fld"
  shows "\<not> rule_bad f (fvalue fld)"
proof (cases f)
  case NomeInput
  then show ?thesis using assms by (simp add: valid_validateForm bad_at_def)
next
  case EmailInput
  then show ?thesis using assms by (simp add: valid_validateForm bad_at_def)
next
  case MensagemInput
  then show ?thesis using assms by (simp add: valid_validateForm bad_at_def)
next
  case EmpresaInput
  then show ?thesis by (simp add: rule_bad_other)
next
  case ServicoSelect
  then show ?thesis by (simp add: rule_bad_other)
qed

lemma submit_inv:
  assumes "form_inv st" and "pending st = 0"
  shows "form_inv (fst (on_submit st))"
proof -
  let ?s = "fst (on_submit st)"
  have ok: "field_ok f fld'" if c: "control ?s f = Some fld'" for f fld'
  proof (cases "control st f")
    case None
    then show ?thesis using c control_validateForm_None [of st f] by (simp add: on_submit_control)
  next
    case (Some fld)
    then obtain k where "control (snd (validateForm st)) f = Some (checked f k fld)"
      using control_validateForm_Some by blast
    then have "fld' = checked f k fld" using c by (simp add: on_submit_control)
    moreover have "field_ok f fld" using assms(1) Some by (simp add: form_inv_def)
    ultimately show ?thesis by (simp add: checked_ok)
  qed
  have empty: "field_errors fld' = []" if p: "0 < pending ?s" and c: "control ?s f = Some fld'" for f fld'
  proof (cases "control st f")
    case None
    then show ?thesis using c control_validateForm_None [of st f] by (simp add: on_submit_control)
  next
    case (Some fld)
    then obtain k where "control (snd (validateForm st)) f = Some (checked f k fld)"
      using control_validateForm_Some by blast
    then have e: "fld' = checked f k fld" using c by (simp add: on_submit_control)
    have "valid (fst (validateForm st))" using p assms(2) by (rule on_submit_pending)
    then have "\<not> rule_bad f (fvalue fld)" using Some by (rule valid_no_bad)
    moreover have "field_ok f fld" using assms(1) Some by (simp add: form_inv_def)
    ultimately show ?thesis using e by (simp add: checked_valid_empty)
  qed
  show ?thesis unfolding form_inv_def using ok empty by blast
qed

lemma submit_marker:
  assumes "marker_inv st acc"
  shows "marker_inv (fst (on_submit st)) {}"
  unfolding marker_inv_def
proof (intro allI impI)
  fix f fld'
  assume c: "control (fst (on_submit st)) f = Some fld'" and h: "has_error fld'"
  show "field_errors fld' \<noteq> [] \<or> (f \<in> {} \<and> form_input fld')"
  proof (cases "control st f")
    case None
    then show ?thesis using c control_validateForm_None [of st f] by (simp add: on_submit_control)
  next
    case (Some fld)
    then obtain k where "control (snd (validateForm st)) f = Some (checked f k fld)"
      using control_validateForm_Some by blast
    then have e: "fld' = checked f k fld" using c by (simp add: on_submit_control)
    have "has_error fld \<longrightarrow> field_errors fld \<noteq> [] \<or> form_input fld"
      using assms Some by (auto simp: marker_inv_def)
    then show ?thesis using checked_marker [of fld f k] h e by simp
  qed
qed

lemma showFeedback_control:
  "showFeedback st k = Inl st' \<Longrightarrow> st' = st"
  "showFeedback st k = Inr st' \<Longrightarrow> control st' = control st \<and> submitBtn st' = submitBtn st"
  by (auto simp: showFeedback_def split: option.splits)

lemma catch_block_control:
  "control (fst (catch_block st)) = control st \<and> submitBtn (fst (catch_block st)) = submitBtn st"
  by (auto simp: catch_block_def showFeedback_def split: option.splits sum.splits)

lemma finally_block_fields:
  "control (finally_block st) = control st" "pending (finally_block st) = pending st - 1"
  by (simp_all add: finally_block_def)

lemma form_reset_control:
  "control (form_reset st) f = map_option (\<lambda>fld. fld\<lparr>fvalue := default_value fld\<rparr>) (control st f)"
  by (simp add: form_reset_def split: option.splits)

lemma on_settled_control:
  "control (fst (on_settled st out)) f = control st f
   \<or> control (fst (on_settled st out)) f = map_option (\<lambda>fld. fld\<lparr>fvalue := default_value fld\<rparr>) (control st f)"
proof (cases "out = Resolved True \<and> (\<exists>st0. showFeedback st Success = Inr st0)")
  case True
  then obtain st0 where s: "showFeedback st Success = Inr st0" by blast
  then have "control st0 = control st" using showFeedback_control(2) by blast
  then show ?thesis using True s
    by (simp add: on_settled_def finally_block_fields form_reset_control)
next
  case False
  have "control (fst (on_settled st out)) f = control st f"
  proof (cases out)
    case (Resolved ok)
    show ?thesis
    proof (cases ok)
      case True
      then obtain st0 where "showFeedback st Success = Inl st0"
        using False Resolved by (cases "showFeedback st Success") auto
      then show ?thesis using Resolved True showFeedback_control(1) [of st Success st0] catch_block_control [of st]
        by (auto simp: on_settled_def finally_block_fields split: prod.splits)
    next
      case False
      then show ?thesis using Resolved catch_block_control [of st]
        by (auto simp: on_settled_def finally_block_fields split: prod.splits)
    qed
  next
    case Rejected
    then show ?thesis using catch_block_control [of st]
      by (auto simp: on_settled_def finally_block_fields split: prod.splits)
  qed
  then show ?thesis by simp
qed

lemma on_settled_field:
  assumes "control (fst (on_settled st out)) f = Some fld'"
  shows "\<exists>fld. control st f = Some fld \<and> field_errors fld' = field_errors fld
           \<and> has_error fld' = has_error fld \<and> form_input fld' = form_input fld"
  using on_settled_control [of st out f] assms by (cases "control st f") auto

lemma settled_inv:
  assumes "form_inv st" and "0 < pending st"
  shows "form_inv (fst (on_settled st out))"
proof -
  have "field_errors fld' = []" if "control (fst (on_settled st out)) f = Some fld'" for f fld'
    using on_settled_field [OF that] assms by (auto simp: form_inv_def)
  then show ?thesis by (simp add: form_inv_def field_ok_def)
qed

lemma settled_marker:
  assumes "marker_inv st acc"
  shows "marker_inv (fst (on_settled st out)) acc"
  unfolding marker_inv_def
proof (intro allI impI)
  fix f fld'
  assume "control (fst (on_settled st out)) f = Some fld'" and h: "has_error fld'"
  then obtain fld where "control st f = Some fld" "field_errors fld' = field_errors fld"
      "has_error fld' = has_error fld" "form_input fld' = form_input fld"
    using on_settled_field by blast
  then show "field_errors fld' \<noteq> [] \<or> (f \<in> acc \<and> form_input fld')"
    using assms h by (auto simp: marker_inv_def)
qed

lemma on_blur_control:
  "control (on_blur st f) g = control st g
   \<or> (\<exists>fld. control st g = Some fld \<and> control (on_blur st f) g = Some (fld\<lparr>has_error := True\<rparr>))"
  by (auto simp: on_blur_def split: option.splits)

lemma on_blur_rest: "pending (on_blur st f) = pending st" "submitBtn (on_blur st f) = submitBtn st"
  "effects (on_blur st f) = effects st" "feedback (on_blur st f) = feedback st"
  by (simp_all add: on_blur_def split: option.splits)

lemma field_ok_mark: "field_ok f fld \<Longrightarrow> field_ok f (fld\<lparr>has_error := True\<rparr>)"
  by (auto simp: field_ok_def spans_tracked_def)

lemma blur_inv:
  assumes "form_inv st"
  shows "form_inv (on_blur st f)"
proof -
  have "field_ok g fld' \<and> (0 < pending st \<longrightarrow> field_errors fld' = [])"
    if "control (on_blur st f) g = Some fld'" for g fld'
    using on_blur_control [of st f g] that assms
    by (auto simp: form_inv_def field_ok_mark)
  then show ?thesis using assms by (simp add: form_inv_def on_blur_rest)
qed

lemma blur_marker:
  assumes "marker_inv st acc"
  shows "marker_inv (on_blur st f) (if blur_marks st f then insert f acc else acc)"
  unfolding marker_inv_def
proof (intro allI impI)
  fix g fld'
  assume c: "control (on_blur st f) g = Some fld'" and h: "has_error fld'"
  show "field_errors fld' \<noteq> []
          \<or> (g \<in> (if blur_marks st f then insert f acc else acc) \<and> form_input fld')"
  proof (cases "control st g = Some fld'")
    case True
    then have "field_errors fld' \<noteq> [] \<or> (g \<in> acc \<and> form_input fld')"
      using assms h by (auto simp: marker_inv_def)
    then show ?thesis by auto
  next
    case changed: False
    then obtain fld where f: "g = f" "control st f = Some fld" "form_input fld" "required fld"
        "trim (fvalue fld) = []" "fld' = fld\<lparr>has_error := True\<rparr>"
      using c by (auto simp: on_blur_def split: option.splits if_splits)
    then have "\<not> has_error fld" using changed by (cases "has_error fld") auto
    then have "blur_marks st f" using f by (simp add: blur_marks_def)
    then show ?thesis using f by simp
  qed
qed

lemma on_input_control:
  "control (on_input st f v) g = (if g = f then map_option (edited v) (control st f) else control st g)"
  by (simp add: on_input_def edited_def split: option.splits)

lemma on_input_rest: "pending (on_input st f v) = pending st" "submitBtn (on_input st f v) = submitBtn st"
  "effects (on_input st f v) = effects st" "feedback (on_input st f v) = feedback st"
  by (simp_all add: on_input_def split: option.splits)

lemma edited_empty: "spans_tracked fld \<Longrightarrow> field_errors (edited v fld) = []"
proof -
  assume t: "spans_tracked fld"
  show ?thesis
  proof (cases "input_once fld = []")
    case True
    then have "field_errors fld = []" using t by (cases "field_errors fld") (simp_all add: spans_tracked_def)
    then show ?thesis using True by (simp add: edited_def)
  next
    case False
    have "filter (\<lambda>e. span_id e \<notin> set (input_once fld)) (field_errors fld) = []"
      using t by (simp add: spans_tracked_def filter_empty_conv list_all_iff)
    then show ?thesis using False by (simp add: edited_def)
  qed
qed

lemma edited_marker:
  "(has_error fld \<longrightarrow> field_errors fld \<noteq> [] \<or> (P \<and> form_input fld)) \<Longrightarrow>
   has_error (edited v fld) \<longrightarrow> field_errors (edited v fld) \<noteq> [] \<or> (P \<and> form_input (edited v fld))"
  by (simp add: edited_def)

lemma input_inv:
  assumes "form_inv st"
  shows "form_inv (on_input st f v)"
proof -
  have "field_ok g fld' \<and> (0 < pending st \<longrightarrow> field_errors fld' = [])"
    if c: "control (on_input st f v) g = Some fld'" for g fld'
  proof (cases "g = f")
    case True
    then obtain fld where f: "control st f = Some fld" "fld' = edited v fld"
      using c by (auto simp: on_input_control)
    then have "field_ok f fld" using assms by (simp add: form_inv_def)
    then have "spans_tracked fld" by (rule field_ok_tracked)
    then have "field_errors fld' = []" using f by (simp add: edited_empty)
    then show ?thesis by (simp add: field_ok_def)
  next
    case False
    then show ?thesis using c assms by (simp add: on_input_control form_inv_def)
  qed
  then show ?thesis using assms by (simp add: form_inv_def on_input_rest)
qed

lemma input_marker:
  assumes "marker_inv st acc"
  shows "marker_inv (on_input st f v) acc"
  unfolding marker_inv_def
proof (intro allI impI)
  fix g fld'
  assume c: "control (on_input st f v) g = Some fld'" and h: "has_error fld'"
  show "field_errors fld' \<noteq> [] \<or> (g \<in> acc \<and> form_input fld')"
  proof (cases "g = f")
    case True
    then obtain fld where f: "control st f = Some fld" "fld' = edited v fld"
      using c by (auto simp: on_input_control)
    then have "has_error fld \<longrightarrow> field_errors fld \<noteq> [] \<or> (f \<in> acc \<and> form_input fld)"
      using assms by (simp add: marker_inv_def)
    then show ?thesis using edited_marker [of fld "f \<in> acc" v] h f True by simp
  next
    case False
    then show ?thesis using c h assms by (simp add: on_input_control marker_inv_def)
  qed
qed

lemma form_step_inv:
  "form_inv st \<Longrightarrow> (ev = Submit \<longrightarrow> pending st = 0) \<Longrightarrow> form_inv (form_step st ev)"
  by (cases ev) (simp_all add: submit_inv settled_inv blur_inv input_inv)

lemma orderly_Cons:
  "orderly st (ev # evs) \<Longrightarrow> (ev = Submit \<longrightarrow> pending st = 0) \<and> orderly (form_step st ev) evs"
  by (cases ev) simp_all

lemma form_run_inv: "form_inv st \<Longrightarrow> orderly st evs \<Longrightarrow> form_inv (form_run st evs)"
  unfolding form_run_def
proof (induction evs arbitrary: st)
  case Nil
  then show ?case by simp
next
  case (Cons ev evs)
  have o: "ev = Submit \<longrightarrow> pending st = 0" "orderly (form_step st ev) evs"
    using orderly_Cons [OF Cons.prems(2)] by simp_all
  have "form_inv (form_step st ev)" using Cons.prems(1) o(1) by (rule form_step_inv)
  then have "form_inv (foldl form_step (form_step st ev) evs)" using o(2) by (rule Cons.IH)
  then show ?case by simp
qed

lemma run_marker: "marker_inv st acc \<Longrightarrow> marker_inv (form_run st evs) (blur_marked st evs acc)"
  unfolding form_run_def
proof (induction evs arbitrary: st acc)
  case Nil
  then show ?case by simp
next
  case (Cons ev evs)
  show ?case
  proof (cases ev)
    case Submit
    have "marker_inv (form_step st Submit) {}" using Cons.prems by (simp add: submit_marker)
    then have "marker_inv (foldl form_step (form_step st Submit) evs)
                 (blur_marked (form_step st Submit) evs {})"
      by (rule Cons.IH)
    then show ?thesis using Submit by simp
  next
    case (Settled out)
    have "marker_inv (form_step st (Settled out)) acc" using Cons.prems by (simp add: settled_marker)
    then have "marker_inv (foldl form_step (form_step st (Settled out)) evs)
                 (blur_marked (form_step st (Settled out)) evs acc)"
      by (rule Cons.IH)
    then show ?thesis using Settled by simp
  next
    case (Blur f)
    have "marker_inv (form_step st (Blur f)) (if blur_marks st f then insert f acc else acc)"
      using Cons.prems by (simp only: form_step.simps blur_marker)
    then have "marker_inv (foldl form_step (form_step st (Blur f)) evs)
                 (blur_marked (form_step st (Blur f)) evs (if blur_marks st f then insert f acc else acc))"
      by (rule Cons.IH)
    then show ?thesis using Blur by (simp only: foldl_Cons blur_marked.simps)
  next
    case (Input f v)
    have "marker_inv (form_step st (Input f v)) acc" using Cons.prems by (simp add: input_marker)
    then have "marker_inv (foldl form_step (form_step st (Input f v)) evs)
                 (blur_marked (form_step st (Input f v)) evs acc)"
      by (rule Cons.IH)
    then show ?thesis using Input by simp
  qed
qed

lemma init_inv:
  assumes "initContactForm page = Some st0"
  shows "form_inv st0 \<and> marker_inv st0 {}"
proof -
  have "form_el page" using assms by (simp add: initContactForm_def split: if_splits)
  then have c: "control st0 f = (case controls page f of None \<Rightarrow> None
                        | Some m \<Rightarrow>
                            Some \<lparr>fvalue = initial m, default_value = initial m,
                                  form_input = is_form_input m, required = is_required m,
                                  has_error = False, field_errors = [], input_once = []\<rparr>)"
    and p: "pending st0 = 0" for f
    using assms by (auto simp: initContactForm_def)
  have "field_errors fld = [] \<and> \<not> has_error fld" if "control st0 f = Some fld" for f fld
    using that c [of f] by (cases "controls page f") auto
  then show ?thesis using p by (auto simp: form_inv_def marker_inv_def field_ok_def)
qed

text \<open>
  Claim C5, as amended. The page shows no marker and no message at first, and each control
  sits in a wrapper of its own. Take any state the form reaches from its initial one by
  submit events, answers of the collaborator, blur events and edits. If no submit event arrived
  while the answer to an earlier call was awaited, a control that carries a message is marked
  invalid. And whatever the run, a control that is marked invalid carries a message, unless a
  blur event has marked it since the last submit event: the blur listener adds the marker
  alone, to a required \<^verbatim>\<open>form-input\<close> control whose trimmed value is empty, and the next
  validation removes it. So in an orderly run a control on which no blur event has added a
  marker since the last submit event is marked invalid exactly when it carries a message.
\<close>

theorem marker_and_message:
  assumes "initContactForm page = Some st0"
    and "control (form_run st0 evs) f = Some fld"
  shows "(orderly st0 evs \<longrightarrow> field_errors fld \<noteq> [] \<longrightarrow> has_error fld)
       \<and> (f \<notin> blur_marked st0 evs {} \<longrightarrow> has_error fld \<longrightarrow> field_errors fld \<noteq> [])
       \<and> (orderly st0 evs \<and> f \<notin> blur_marked st0 evs {} \<longrightarrow>
             (has_error fld \<longleftrightarrow> field_errors fld \<noteq> []))"
proof -
  have "orderly st0 evs \<longrightarrow> form_inv (form_run st0 evs)"
    using init_inv [OF assms(1)] by (simp add: form_run_inv)
  then have a: "orderly st0 evs \<longrightarrow> field_errors fld \<noteq> [] \<longrightarrow> has_error fld"
    using assms(2) by (auto simp: form_inv_def field_ok_def)
  have "marker_inv (form_run st0 evs) (blur_marked st0 evs {})"
    using init_inv [OF assms(1)] by (simp add: run_marker)
  then have "f \<notin> blur_marked st0 evs {} \<longrightarrow> has_error fld \<longrightarrow> field_errors fld \<noteq> []"
    using assms(2) by (auto simp: marker_inv_def)
  then show ?thesis using a by blast
qed

theorem marker_and_message_witness:
  "orderly (the (initContactForm
       (example_page (of_ascii ''A'') (of_ascii ''a@b.c'') [] [] (of_ascii ''1234567890''))))
     [Blur ServicoSelect, Submit, Blur NomeInput]
   \<and> blur_marked (the (initContactForm
       (example_page (of_ascii ''A'') (of_ascii ''a@b.c'') [] [] (of_ascii ''1234567890''))))
     [Blur ServicoSelect, Submit, Blur NomeInput] {} = {}
   \<and> control (form_run (the (initContactForm
       (example_page (of_ascii ''A'') (of_ascii ''a@b.c'') [] [] (of_ascii ''1234567890''))))
       [Blur ServicoSelect, Submit, Blur NomeInput]) NomeInput
     = Some \<lparr>fvalue = of_ascii ''A'', default_value = of_ascii ''A'', form_input = True,
              required = True, has_error = True,
              field_errors = [\<lparr>span_id = 0, span_message = NomeCurto\<rparr>], input_once = [0]\<rparr>"
  using marker_and_message [of
       "example_page (of_ascii ''A'') (of_ascii ''a@b.c'') [] [] (of_ascii ''1234567890'')"
       "the (initContactForm
          (example_page (of_ascii ''A'') (of_ascii ''a@b.c'') [] [] (of_ascii ''1234567890'')))"
       "[Blur ServicoSelect, Submit, Blur NomeInput]" NomeInput
       "\<lparr>fvalue = of_ascii ''A'', default_value = of_ascii ''A'', form_input = True,
              required = True, has_error = True,
              field_errors = [\<lparr>span_id = 0, span_message = NomeCurto\<rparr>], input_once = [0]\<rparr>"]
  by (simp add: form_eval blur_marks_def)

text \<open>
  As the claim C5 was stated, with the marker and the message always together, it fails in
  both directions. Leaving the empty, required name control marks it and attaches no message.
  And when a submit event arrives while an answer is awaited, a message can outlive its marker:
  a valid form is submitted, the name is shortened to "A" and the form submitted again, which
  marks the name and attaches the message; the answer to the first call resets the form, the
  name back to "Ana", without an \<^verbatim>\<open>input\<close> event; a third submit event removes the marker and,
  the name being valid, leaves the message.
\<close>

theorem marker_and_message_counterexample:
  "(case control (form_run (the (initContactForm (example_page [] [] [] [] []))) [Blur NomeInput]) NomeInput of
      None \<Rightarrow> False
    | Some fld \<Rightarrow> has_error fld \<and> field_errors fld = [])
   \<and> (case control (form_run (the (initContactForm
          (example_page (of_ascii ''Ana'') (of_ascii ''a@b.c'') [] [] (of_ascii ''1234567890''))))
          [Submit, Input NomeInput (of_ascii ''A''), Submit, Settled (Resolved True), Submit]) NomeInput of
      None \<Rightarrow> False
    | Some fld \<Rightarrow> \<not> has_error fld \<and> field_errors fld = [\<lparr>span_id = 0, span_message = NomeCurto\<rparr>])"
  by (simp add: form_eval)

section \<open>The contact form: submission\<close>














end
